theory Spec2Isabelle
  imports Main "HOL-Library.Sublist"
begin

section \<open>Python strings\<close>

text \<open>
  A Python \<open>str\<close> is modelled as a \<open>string\<close> whose characters are the code points
  below 256. \<open>is_space\<close> lists the code points in that range for which Python's
  \<open>str.isspace\<close> holds; \<open>str.strip()\<close> and \<open>str.split()\<close> cut at exactly these.
\<close>

definition is_space :: "char \<Rightarrow> bool" where
  "is_space c = (c \<in> set [CHR 0x09, CHR 0x0A, CHR 0x0B, CHR 0x0C, CHR 0x0D,
                            CHR 0x1C, CHR 0x1D, CHR 0x1E, CHR 0x1F, CHR 0x20,
                            CHR 0x85, CHR 0xA0])"

definition py_strip :: "string \<Rightarrow> string" where
  "py_strip s = rev (dropWhile is_space (rev (dropWhile is_space s)))"

definition lower_char :: "char \<Rightarrow> char" where
  "lower_char c =
     (let n = (of_char c :: nat) in
      if (65 \<le> n \<and> n \<le> 90) \<or> (192 \<le> n \<and> n \<le> 214) \<or> (216 \<le> n \<and> n \<le> 222)
      then char_of (n + 32) else c)"

definition py_lower :: "string \<Rightarrow> string" where
  "py_lower s = map lower_char s"

text \<open>\<open>py_in sub s\<close> is Python's \<open>sub in s\<close> on strings.\<close>

fun py_in :: "string \<Rightarrow> string \<Rightarrow> bool" where
  "py_in sub [] = (sub = [])"
| "py_in sub (c # cs) = (prefix sub (c # cs) \<or> py_in sub cs)"

text \<open>
  \<open>split_once sep s\<close> cuts \<open>s\<close> at the leftmost occurrence of \<open>sep\<close>, and
  \<open>py_split sep s\<close> is \<open>s.split(sep)\<close>. Python raises \<open>ValueError\<close> for an empty
  separator; the source only ever passes the literal \<open>'a-star-'\<close>, so that case is a
  guard here and is never reached.
\<close>

fun split_once :: "string \<Rightarrow> string \<Rightarrow> (string \<times> string) option" where
  "split_once sep [] = (if sep = [] then Some ([], []) else None)"
| "split_once sep (c # cs) =
     (if prefix sep (c # cs) then Some ([], drop (length sep) (c # cs))
      else map_option (\<lambda>(a, b). (c # a, b)) (split_once sep cs))"

function py_split :: "string \<Rightarrow> string \<Rightarrow> string list" where
  "py_split sep s =
     (if sep = [] then [s]
      else case split_once sep s of
             None \<Rightarrow> [s]
           | Some (a, b) \<Rightarrow> a # py_split sep b)"
  by pat_completeness auto
termination
proof (relation "measure (\<lambda>(sep, s). length s)", goal_cases)
  case 1
  show ?case by simp
next
  case (2 sep s ab a b)
  have "length b' < length t" if "split_once sep t = Some (a', b')" for t a' b'
    using that \<open>sep \<noteq> []\<close> by (induction t arbitrary: a') (auto split: if_splits)
  then show ?case using 2 by (metis in_measure old.prod.case)
qed

text \<open>\<open>py_split_ws s\<close> is \<open>s.split()\<close>: the maximal runs of non-whitespace.\<close>

function py_split_ws :: "string \<Rightarrow> string list" where
  "py_split_ws s =
     (let t = dropWhile is_space s in
      if t = [] then []
      else takeWhile (\<lambda>c. \<not> is_space c) t
             # py_split_ws (dropWhile (\<lambda>c. \<not> is_space c) t))"
  by pat_completeness auto
termination
proof (relation "measure length", goal_cases)
  case 1
  show ?case by simp
next
  case (2 s t)
  then obtain c cs where t: "t = c # cs" and c: "\<not> is_space c"
    by (metis hd_dropWhile list.exhaust list.sel(1))
  have "length (dropWhile (\<lambda>c. \<not> is_space c) t) \<le> length cs"
    using t c by (simp add: length_dropWhile_le)
  moreover have "length t \<le> length s"
    using 2 by (simp add: length_dropWhile_le)
  ultimately show ?case using t by simp
qed

section \<open>Exceptions and results\<close>

text \<open>
  Every exception below is a subclass of Python's \<open>Exception\<close>, so \<open>except Exception\<close>
  catches each of them. \<open>WebDriverException\<close> stands for any Selenium failure other than
  the two the source names (a stale element, a lost session, an intercepted click).
  A computation that may raise has type \<open>exn + 'a\<close>, with \<open>Inl\<close> the raised exception.
\<close>

datatype exn =
    NoSuchElementException
  | TimeoutException
  | WebDriverException
  | TypeError
  | IndexError

definition and_then :: "exn + 'a \<Rightarrow> ('a \<Rightarrow> exn + 'b) \<Rightarrow> exn + 'b" where
  "and_then m f = (case m of Inl e \<Rightarrow> Inl e | Inr v \<Rightarrow> f v)"

text \<open>\<open>try: m except NoSuchElementException: d\<close>\<close>

fun except_no_such :: "exn + 'a \<Rightarrow> 'a \<Rightarrow> exn + 'a" where
  "except_no_such (Inl NoSuchElementException) d = Inr d"
| "except_no_such (Inl e) d = Inl e"
| "except_no_such (Inr v) d = Inr v"

text \<open>\<open>xs[i]\<close> for a literal index \<open>i \<ge> 0\<close>.\<close>

definition py_index :: "'a list \<Rightarrow> nat \<Rightarrow> exn + 'a" where
  "py_index xs i = (if i < length xs then Inr (xs ! i) else Inl IndexError)"

section \<open>The browser as the scraper sees it\<close>

text \<open>
  A \<open>WebElement\<close> is the collection of answers it gives to the calls the scrapers make on
  it: \<open>.text\<close>, \<open>get_attribute(name)\<close> (a \<open>str\<close> or \<open>None\<close>), \<open>is_displayed()\<close>,
  \<open>is_enabled()\<close>, \<open>click()\<close> and \<open>find_elements(By.CSS_SELECTOR, sel)\<close>; each may raise.
  A \<open>page\<close> is what the driver answers at one moment of the run: \<open>driver.current_url\<close>,
  \<open>driver.find_elements(By.CSS_SELECTOR, sel)\<close> and
  \<open>wait.until(EC.presence_of_element_located(locator))\<close>, which gives \<open>None\<close> when the
  element shows up in time and the exception otherwise. The page may differ between the
  iterations of the page loop and between login polls; during one extraction function it
  is taken as fixed. Sleeps and random delays are left out, and so are interrupts that
  are not an \<open>Exception\<close>.
\<close>

datatype element = Element
  (el_text: "exn + string")
  (el_attribute: "string \<Rightarrow> exn + string option")
  (el_displayed: "exn + bool")
  (el_enabled: "exn + bool")
  (el_click: "exn option")
  (el_find_elements: "string \<Rightarrow> exn + element list")

record page =
  current_url :: "exn + string"
  find_elements :: "string \<Rightarrow> exn + element list"
  wait_until_present :: "string \<Rightarrow> exn option"

text \<open>
  Selenium's \<open>find_element\<close> returns the first match of \<open>find_elements\<close> and raises
  \<open>NoSuchElementException\<close> when there is none.
\<close>

definition find_element :: "(string \<Rightarrow> exn + element list) \<Rightarrow> string \<Rightarrow> exn + element" where
  "find_element finder sel =
     (case finder sel of
        Inl e \<Rightarrow> Inl e
      | Inr [] \<Rightarrow> Inl NoSuchElementException
      | Inr (el # _) \<Rightarrow> Inr el)"

text \<open>\<open>find_element(By.CSS_SELECTOR, sel).text\<close>\<close>

definition text_at :: "(string \<Rightarrow> exn + element list) \<Rightarrow> string \<Rightarrow> exn + string" where
  "text_at finder sel = and_then (find_element finder sel) el_text"

section \<open>scraping\_final.py: AmazonReviewsScraper\<close>

subsection \<open>extract\_review\_data\<close>

text \<open>
  A review is the dict built by \<open>extract_review_data\<close>, kept as the list of its items in
  insertion order; each key is assigned exactly once.
\<close>

type_synonym review = "(string \<times> string) list"

text \<open>
  The five text fields share one shape:
  \<open>try: review_data[k] = review_element.find_element(sel).text.strip()\<close>
  \<open>except NoSuchElementException: review_data[k] = sentinel\<close>.
\<close>

definition text_field :: "element \<Rightarrow> string \<Rightarrow> string \<Rightarrow> exn + string" where
  "text_field review_element sel sentinel =
     except_no_such
       (and_then (text_at (el_find_elements review_element) sel) (\<lambda>t. Inr (py_strip t)))
       sentinel"

text \<open>
  \<open>rating_text.split('a-star-')[1].split()[0] if 'a-star-' in rating_text else "N/A"\<close>;
  \<open>'a-star-' in None\<close> raises \<open>TypeError\<close>.
\<close>

definition parse_rating :: "string option \<Rightarrow> exn + string" where
  "parse_rating rating_text =
     (case rating_text of
        None \<Rightarrow> Inl TypeError
      | Some s \<Rightarrow>
          if py_in ''a-star-'' s
          then and_then (py_index (py_split ''a-star-'' s) 1) (\<lambda>part.
               py_index (py_split_ws part) 0)
          else Inr ''N/A'')"

text \<open>\<open>review_element.find_element(...).get_attribute('class')\<close>\<close>

definition rating_class :: "element \<Rightarrow> exn + string option" where
  "rating_class review_element =
     and_then (find_element (el_find_elements review_element)
                 ''[data-hook=\"review-star-rating\"]'')
       (\<lambda>rating_element. el_attribute rating_element ''class'')"

definition rating_field :: "element \<Rightarrow> exn + string" where
  "rating_field review_element =
     except_no_such (and_then (rating_class review_element) parse_rating) ''N/A''"

text \<open>A \<open>WebElement\<close> is always truthy, so a badge that is found gives \<open>"Yes"\<close>.\<close>

definition verified_field :: "element \<Rightarrow> exn + string" where
  "verified_field review_element =
     except_no_such
       (and_then (find_element (el_find_elements review_element)
                    ''[data-hook=\"avp-badge\"]'') (\<lambda>verified_element. Inr ''Yes''))
       ''No''"

text \<open>The body of the outer \<open>try\<close> of \<open>extract_review_data\<close>.\<close>

definition review_fields :: "element \<Rightarrow> exn + review" where
  "review_fields review_element =
     and_then (text_field review_element ''[data-hook=\"review-title\"]'' ''N/A'') (\<lambda>title.
     and_then (rating_field review_element) (\<lambda>rating.
     and_then (text_field review_element ''[data-hook=\"review-body\"]'' ''N/A'') (\<lambda>body.
     and_then (text_field review_element ''[data-hook=\"genome-widget\"] a'' ''N/A'') (\<lambda>author.
     and_then (text_field review_element ''[data-hook=\"review-date\"]'' ''N/A'') (\<lambda>date.
     and_then (verified_field review_element) (\<lambda>verified.
     and_then (text_field review_element ''[data-hook=\"helpful-vote-statement\"]'' ''0'')
       (\<lambda>helpful.
     Inr [(''title'', title), (''rating'', rating), (''text'', body), (''author'', author),
          (''date'', date), (''verified_purchase'', verified),
          (''helpful_votes'', helpful)])))))))"

text \<open>\<open>except Exception: return None\<close>\<close>

definition extract_review_data :: "element \<Rightarrow> exn + review option" where
  "extract_review_data review_element =
     (case review_fields review_element of
        Inl e \<Rightarrow> Inr None
      | Inr review_data \<Rightarrow> Inr (Some review_data))"

subsection \<open>scrape\_reviews\<close>

text \<open>
  The inner \<open>for review_element in review_elements\<close> loop: a record is appended when
  \<open>extract_review_data\<close> returns a truthy dict, and skipped when it returns \<open>None\<close> or
  raises.
\<close>

fun harvest :: "review list \<Rightarrow> element list \<Rightarrow> review list" where
  "harvest reviews_data [] = reviews_data"
| "harvest reviews_data (review_element # rest) =
     (case extract_review_data review_element of
        Inl e \<Rightarrow> harvest reviews_data rest
      | Inr None \<Rightarrow> harvest reviews_data rest
      | Inr (Some review_data) \<Rightarrow>
          if review_data \<noteq> [] then harvest (reviews_data @ [review_data]) rest
          else harvest reviews_data rest)"

text \<open>
  What the run does to the outside world, in order: driver calls and the log lines that
  tell how a run ended.
\<close>

datatype event =
    Start_driver
  | Get string
  | Scraping_page int
  | Find_reviews int
  | Click_next int
  | No_reviews_found
  | No_more_pages
  | Successfully_scraped nat
  | Error_scraping exn

definition get_reviews_url :: "string \<Rightarrow> bool \<Rightarrow> string" where
  "get_reviews_url product_id is_my_product =
     (if is_my_product
      then ''https://www.amazon.com/product-reviews/'' @ product_id
           @ ''/ref=cm_cr_dp_d_show_all_btm?ie=UTF8&reviewerType=all_reviews&filterByStar=positive''
      else ''https://www.amazon.com/product-reviews/'' @ product_id
           @ ''/ref=cm_cr_dp_d_show_all_btm?ie=UTF8&reviewerType=all_reviews&filterByStar=critical'')"

text \<open>
  \<open>go_to_next_page\<close> on the page shown: the result, and whether \<open>click()\<close> was called.
\<close>

definition go_to_next_page :: "page \<Rightarrow> (exn + bool) \<times> bool" where
  "go_to_next_page p =
     (case find_element (find_elements p) ''li.a-last a'' of
        Inl NoSuchElementException \<Rightarrow> (Inr False, False)
      | Inl e \<Rightarrow> (Inl e, False)
      | Inr next_button \<Rightarrow>
          (case el_enabled next_button of
             Inl NoSuchElementException \<Rightarrow> (Inr False, False)
           | Inl e \<Rightarrow> (Inl e, False)
           | Inr False \<Rightarrow> (Inr False, False)
           | Inr True \<Rightarrow>
               (case el_click next_button of
                  None \<Rightarrow> (Inr True, True)
                | Some NoSuchElementException \<Rightarrow> (Inr False, True)
                | Some e \<Rightarrow> (Inl e, True))))"

text \<open>
  The state of the page loop: the records so far and the events so far. The loop ends by
  running out of \<open>range(1, max_pages + 1)\<close>, by \<open>break\<close>, or by an exception that the
  outer handler of \<open>scrape_reviews\<close> catches.
\<close>

record walk =
  reviews_data :: "review list"
  events :: "event list"

datatype loop_exit = Range_done | Break | Raised exn

text \<open>
  The browser of one \<open>scrape_reviews\<close> call: whether \<open>self.driver\<close> is already set, how
  \<open>webdriver.Chrome(...)\<close> and the script injection of \<open>start_driver\<close> go, how
  \<open>driver.get\<close> goes, and the page shown during each iteration of the page loop.
\<close>

record session =
  chrome_start :: "exn option"
  stealth_script :: "exn option"

record reviews_browser = session +
  driver_set :: bool
  get_outcome :: "exn option"
  shown :: "int \<Rightarrow> page"

text \<open>
  The body of one iteration of \<open>for page in range(1, max_pages + 1)\<close> on the page shown:
  \<open>None\<close> when the loop goes on to the next value of \<open>page\<close>, otherwise how it ends.
\<close>

definition visit_page :: "page \<Rightarrow> int \<Rightarrow> int \<Rightarrow> walk \<Rightarrow> loop_exit option \<times> walk" where
  "visit_page p max_pages page st =
     (let st1 = st\<lparr>events := events st @ [Scraping_page page]\<rparr> in
      (case wait_until_present p ''[data-hook=\"review\"]'' of
         Some TimeoutException \<Rightarrow>
           (Some Break, st1\<lparr>events := events st1 @ [No_reviews_found]\<rparr>)
       | Some e \<Rightarrow> (Some (Raised e), st1)
       | None \<Rightarrow>
          (case find_elements p ''[data-hook=\"review\"]'' of
             Inl e \<Rightarrow> (Some (Raised e), st1\<lparr>events := events st1 @ [Find_reviews page]\<rparr>)
           | Inr review_elements \<Rightarrow>
               let st2 = st1\<lparr>reviews_data := harvest (reviews_data st1) review_elements,
                             events := events st1 @ [Find_reviews page]\<rparr> in
               (if page < max_pages then
                  let (r, clicked) = go_to_next_page p;
                      st3 = (if clicked
                             then st2\<lparr>events := events st2 @ [Click_next page]\<rparr>
                             else st2) in
                  (case r of
                     Inl e \<Rightarrow> (Some (Raised e), st3)
                   | Inr False \<Rightarrow> (Some Break, st3\<lparr>events := events st3 @ [No_more_pages]\<rparr>)
                   | Inr True \<Rightarrow> (None, st3))
                else (None, st2)))))"

function pages_loop :: "(int \<Rightarrow> page) \<Rightarrow> int \<Rightarrow> int \<Rightarrow> walk \<Rightarrow> loop_exit \<times> walk" where
  "pages_loop site max_pages page st =
     (if max_pages < page then (Range_done, st)
      else case visit_page (site page) max_pages page st of
             (Some ex, st') \<Rightarrow> (ex, st')
           | (None, st') \<Rightarrow> pages_loop site max_pages (page + 1) st')"
  by pat_completeness auto
termination
  by (relation "measure (\<lambda>(site, max_pages, page, st). nat (max_pages + 1 - page))") auto

text \<open>
  \<open>start_driver\<close> of this class re-raises what it catches.
\<close>

definition start_driver :: "'a session_scheme \<Rightarrow> exn + unit" where
  "start_driver b =
     (case chrome_start b of
        Some e \<Rightarrow> Inl e
      | None \<Rightarrow> (case stealth_script b of Some e \<Rightarrow> Inl e | None \<Rightarrow> Inr ()))"

text \<open>
  \<open>scrape_reviews\<close>: what the caller gets (an exception or the list) and the events.
  \<open>start_driver\<close> is called before the \<open>try\<close>, so its exception reaches the caller;
  everything after is inside \<open>try ... except Exception: return reviews_data\<close>.
\<close>

definition scrape_reviews ::
  "reviews_browser \<Rightarrow> string \<Rightarrow> bool \<Rightarrow> int \<Rightarrow> (exn + review list) \<times> event list" where
  "scrape_reviews b product_id is_my_product max_pages =
     (case (if driver_set b then Inr () else start_driver b) of
        Inl e \<Rightarrow> (Inl e, [Start_driver])
      | Inr _ \<Rightarrow>
          let evs = (if driver_set b then [] else [Start_driver]);
              reviews_url = get_reviews_url product_id is_my_product;
              evs = evs @ [Get reviews_url]
          in (case get_outcome b of
                Some e \<Rightarrow> (Inr [], evs @ [Error_scraping e])
              | None \<Rightarrow>
                  (case pages_loop (shown b) max_pages 1 \<lparr>reviews_data = [], events = evs\<rparr> of
                     (Raised e, st) \<Rightarrow>
                       (Inr (reviews_data st), events st @ [Error_scraping e])
                   | (_, st) \<Rightarrow>
                       (Inr (reviews_data st),
                        events st @ [Successfully_scraped (length (reviews_data st))]))))"

section \<open>product\_details.py: AmazonRufusScraper\<close>

text \<open>
  Python's \<open>a or b\<close> on a \<open>str\<close>-or-\<open>None\<close> value: \<open>b\<close> is evaluated only when
  \<open>a\<close> is \<open>None\<close> or empty.
\<close>

definition or_str :: "exn + string option \<Rightarrow> exn + string \<Rightarrow> exn + string" where
  "or_str a b =
     (case a of
        Inl e \<Rightarrow> Inl e
      | Inr None \<Rightarrow> b
      | Inr (Some s) \<Rightarrow> if s = [] then b else Inr s)"

definition some_text :: "exn + string \<Rightarrow> exn + string option" where
  "some_text t = (case t of Inl e \<Rightarrow> Inl e | Inr s \<Rightarrow> Inr (Some s))"

definition raising :: "exn option \<Rightarrow> exn + unit" where
  "raising r = (case r of Some e \<Rightarrow> Inl e | None \<Rightarrow> Inr ())"

fun py_enumerate :: "int \<Rightarrow> 'a list \<Rightarrow> (int \<times> 'a) list" where
  "py_enumerate i [] = []"
| "py_enumerate i (x # xs) = (i, x) # py_enumerate (i + 1) xs"

subsection \<open>wait\_for\_login\_completion\<close>

text \<open>
  \<open>el.get_attribute('textContent') or el.text or ""\<close>
\<close>

definition greeting_text :: "element \<Rightarrow> exn + string" where
  "greeting_text el =
     or_str (el_attribute el ''textContent'') (or_str (some_text (el_text el)) (Inr []))"

text \<open>The inner loop of \<open>check_logged_in_elements\<close>; \<open>Inr True\<close> is \<open>return True\<close>.\<close>

fun greeting_among :: "element list \<Rightarrow> exn + bool" where
  "greeting_among [] = Inr False"
| "greeting_among (el # rest) =
     (case el_displayed el of
        Inl e \<Rightarrow> Inl e
      | Inr False \<Rightarrow> greeting_among rest
      | Inr True \<Rightarrow>
          (case greeting_text el of
             Inl e \<Rightarrow> Inl e
           | Inr text \<Rightarrow>
               if py_in ''hello'' (py_lower text) \<and> 10 < length (py_strip text)
               then Inr True
               else greeting_among rest))"

fun logged_in_scan :: "page \<Rightarrow> string list \<Rightarrow> exn + bool" where
  "logged_in_scan p [] = Inr False"
| "logged_in_scan p (selector # rest) =
     (case find_elements p selector of
        Inl e \<Rightarrow> Inl e
      | Inr elements \<Rightarrow>
          (case greeting_among elements of
             Inl e \<Rightarrow> Inl e
           | Inr True \<Rightarrow> Inr True
           | Inr False \<Rightarrow> logged_in_scan p rest))"

definition check_logged_in_elements :: "page \<Rightarrow> exn + bool" where
  "check_logged_in_elements p =
     logged_in_scan p
       [''#nav-link-accountList[aria-label*=\"Hello\"]'',
        ''.nav-line-1[dir=\"ltr\"]'',
        ''#nav-tools a[href*=\"your-account\"]'']"

text \<open>
  One poll of \<open>wait_for_login_completion\<close>, the body of its \<open>try\<close>: \<open>Inr True\<close> when
  login is detected, \<open>Inr False\<close> when it is not, \<open>Inl e\<close> when the inspection raises.
\<close>

definition login_detected :: "page \<Rightarrow> exn + bool" where
  "login_detected p =
     and_then (current_url p) (\<lambda>url.
       if \<not> py_in ''ap/'' url \<and> py_in ''amazon.in'' url then Inr True
       else check_logged_in_elements p)"

text \<open>
  \<open>for attempt in range(max_attempts)\<close>, with \<open>polls attempt\<close> the page shown at that
  attempt. The result is what the function gives its caller and how many polls were made.
\<close>

function wait_loop :: "(nat \<Rightarrow> page) \<Rightarrow> nat \<Rightarrow> nat \<Rightarrow> (exn + bool) \<times> nat" where
  "wait_loop polls max_attempts attempt =
     (if max_attempts \<le> attempt then (Inr True, attempt)
      else case login_detected (polls attempt) of
             Inr True \<Rightarrow> (Inr True, attempt + 1)
           | Inr False \<Rightarrow> wait_loop polls max_attempts (attempt + 1)
           | Inl e \<Rightarrow> wait_loop polls max_attempts (attempt + 1))"
  by pat_completeness auto
termination
  by (relation "measure (\<lambda>(polls, max_attempts, attempt). max_attempts - attempt)") auto

definition wait_for_login_completion :: "(nat \<Rightarrow> page) \<Rightarrow> (exn + bool) \<times> nat" where
  "wait_for_login_completion polls = wait_loop polls 10 0"

subsection \<open>handle\_login\_if\_required and navigate\_to\_product\<close>

text \<open>
  The browser of one \<open>scrape_product_data\<close> call: the pages shown when the sign-in
  widgets are scanned, after that scan, at each login poll, after the login gate, and
  once the product page is loaded; how the two \<open>driver.get\<close> calls go; and the clock.
\<close>

record product_browser = session +
  first_get :: "exn option"
  landing :: page
  after_signin :: page
  polls :: "nat \<Rightarrow> page"
  after_login :: page
  second_get :: "exn option"
  product_page :: page
  clock :: string

text \<open>
  The inner loop over the elements of one sign-in selector; it ends at the first click.
  The scripted click \<open>execute_script("arguments[0].click();", el)\<close> is \<open>el_click\<close>.
\<close>

fun signin_among :: "element list \<Rightarrow> exn + unit" where
  "signin_among [] = Inr ()"
| "signin_among (el # rest) =
     (case el_displayed el of
        Inl e \<Rightarrow> Inl e
      | Inr False \<Rightarrow> signin_among rest
      | Inr True \<Rightarrow>
          (case el_enabled el of
             Inl e \<Rightarrow> Inl e
           | Inr False \<Rightarrow> signin_among rest
           | Inr True \<Rightarrow>
               (case greeting_text el of
                  Inl e \<Rightarrow> Inl e
                | Inr text \<Rightarrow>
                    if list_ex (\<lambda>k. py_in k (py_lower text))
                         [''sign in'', ''sign-in'', ''login'', ''hello'']
                    then raising (el_click el)
                    else signin_among rest)))"

fun signin_scan :: "page \<Rightarrow> string list \<Rightarrow> exn + unit" where
  "signin_scan p [] = Inr ()"
| "signin_scan p (selector # rest) =
     (case find_elements p selector of
        Inl e \<Rightarrow> Inl e
      | Inr elements \<Rightarrow>
          (case signin_among elements of
             Inl e \<Rightarrow> Inl e
           | Inr _ \<Rightarrow> signin_scan p rest))"

definition signin_selectors :: "string list" where
  "signin_selectors =
     [''a[href*=\"ap/signin\"] .a-button-text'',
      ''a[href*=\"ap/signin\"]'',
      ''a.a-button-text[href*=\"signin\"]'',
      ''.nav-signin-tooltip a'',
      ''#nav-link-accountList'']"

definition handle_login_if_required :: "product_browser \<Rightarrow> exn + bool" where
  "handle_login_if_required b =
     (case and_then (current_url (landing b)) (\<lambda>_.
           and_then (signin_scan (landing b) signin_selectors) (\<lambda>_.
           and_then (current_url (after_signin b)) (\<lambda>url.
             if py_in ''ap/signin'' url \<or> py_in ''ap/register'' url
             then fst (wait_for_login_completion (polls b))
             else Inr True))) of
        Inl e \<Rightarrow> Inr False
      | Inr r \<Rightarrow> Inr r)"

definition navigate_to_product :: "product_browser \<Rightarrow> string \<Rightarrow> exn + bool" where
  "navigate_to_product b url =
     (case and_then (raising (first_get b)) (\<lambda>_.
           and_then (handle_login_if_required b) (\<lambda>ok.
             if \<not> ok then Inr False
             else
               and_then (current_url (after_login b)) (\<lambda>cur.
               and_then (if \<not> py_in url cur \<and> \<not> py_in ''ap/'' cur
                         then raising (second_get b) else Inr ()) (\<lambda>_.
               and_then (raising (wait_until_present (product_page b) ''body'')) (\<lambda>_.
               Inr True))))) of
        Inl e \<Rightarrow> Inr False
      | Inr r \<Rightarrow> Inr r)"

text \<open>\<open>start_driver\<close> of this class returns a flag instead of raising.\<close>

definition start_driver_rufus :: "'a session_scheme \<Rightarrow> exn + bool" where
  "start_driver_rufus b =
     (case and_then (raising (chrome_start b)) (\<lambda>_. raising (stealth_script b)) of
        Inl e \<Rightarrow> Inr False
      | Inr _ \<Rightarrow> Inr True)"

subsection \<open>extract\_rufus\_questions\<close>

record question =
  question_number :: int
  question_text :: string
  selector_used :: string

definition pill_selectors :: "string list" where
  "pill_selectors =
     [''.dpx-rex-nile-inline-pill-carousel-element .a-button-text'',
      ''.dpx-rex-nile-inline-pill-carousel-element button'',
      ''.dpx-rex-nile-inline-pill-carousel-element input[type='' @ [CHR 0x27] @ ''submit''
        @ [CHR 0x27] @ '']'',
      ''[data-dpx-rex-nile-inline-pill-clicked] .a-button-text'',
      ''[data-blue-metrics='' @ [CHR 0x27] @ ''PILL_CLICK'' @ [CHR 0x27] @ ''] .a-button-text'']"

text \<open>
  \<open>(el.get_attribute('textContent') or el.get_attribute('value') or el.text).strip()\<close>
\<close>

definition pill_text :: "element \<Rightarrow> exn + string" where
  "pill_text el =
     and_then (or_str (el_attribute el ''textContent'')
                 (or_str (el_attribute el ''value'') (el_text el)))
       (\<lambda>t. Inr (py_strip t))"

text \<open>
  The loop over \<open>enumerate(elements, 1)\<close> for one selector. An exception leaves the loop
  with the questions appended so far still in the list.
\<close>

fun collect_pills ::
  "string \<Rightarrow> question list \<Rightarrow> (int \<times> element) list \<Rightarrow> exn option \<times> question list" where
  "collect_pills selector questions [] = (None, questions)"
| "collect_pills selector questions ((i, el) # rest) =
     (case pill_text el of
        Inl e \<Rightarrow> (Some e, questions)
      | Inr text \<Rightarrow>
          if text \<noteq> [] \<and> py_in ''?'' text
          then collect_pills selector
                 (questions @ [\<lparr>question_number = i, question_text = text,
                                selector_used = selector\<rparr>]) rest
          else collect_pills selector questions rest)"

text \<open>
  \<open>for selector in selectors\<close>: \<open>try_selector\<close> is the body of the \<open>try\<close> up to the
  \<open>if questions: break\<close>; every exception inside is \<open>continue\<close>, and the loop breaks as
  soon as \<open>questions\<close> is non-empty after a selector.
\<close>

definition try_selector ::
  "page \<Rightarrow> string \<Rightarrow> question list \<Rightarrow> exn option \<times> question list" where
  "try_selector p selector questions =
     (case wait_until_present p ''.dpx-rex-nile-inline-pill-carousel'' of
        Some e \<Rightarrow> (Some e, questions)
      | None \<Rightarrow>
          (case find_elements p selector of
             Inl e \<Rightarrow> (Some e, questions)
           | Inr elements \<Rightarrow> collect_pills selector questions (py_enumerate 1 elements)))"

fun pills_loop :: "page \<Rightarrow> question list \<Rightarrow> string list \<Rightarrow> question list" where
  "pills_loop p questions [] = questions"
| "pills_loop p questions (selector # rest) =
     (case try_selector p selector questions of
        (Some e, questions') \<Rightarrow> pills_loop p questions' rest
      | (None, questions') \<Rightarrow>
          if questions' \<noteq> [] then questions' else pills_loop p questions' rest)"

text \<open>
  The fallback pass over \<open>button, input[type='submit'], .a-button-text\<close>; an exception
  here reaches the outer handler of \<open>extract_rufus_questions\<close>.
\<close>

definition fallback_text :: "element \<Rightarrow> exn + string" where
  "fallback_text el =
     or_str (el_attribute el ''value'') (or_str (el_attribute el ''textContent'') (el_text el))"

fun fallback_loop :: "question list \<Rightarrow> element list \<Rightarrow> exn + question list" where
  "fallback_loop questions [] = Inr questions"
| "fallback_loop questions (el # rest) =
     (case fallback_text el of
        Inl e \<Rightarrow> Inl e
      | Inr text \<Rightarrow>
          if text \<noteq> [] \<and> py_in ''?'' text
             \<and> 10 < length (py_strip text) \<and> length (py_strip text) < 200
          then
            if \<not> list_ex (\<lambda>skip. py_in skip (py_lower text))
                     [''sign in'', ''add to cart'', ''buy now'', ''search'']
            then fallback_loop
                   (questions @ [\<lparr>question_number = int (length questions) + 1,
                                  question_text = py_strip text,
                                  selector_used = ''fallback''\<rparr>]) rest
            else fallback_loop questions rest
          else fallback_loop questions rest)"

definition fallback_selector :: string where
  "fallback_selector =
     ''button, input[type='' @ [CHR 0x27] @ ''submit'' @ [CHR 0x27] @ ''], .a-button-text''"

definition extract_rufus_questions :: "page \<Rightarrow> exn + question list" where
  "extract_rufus_questions p =
     (case (let questions = pills_loop p [] pill_selectors in
            if questions = []
            then and_then (find_elements p fallback_selector) (fallback_loop questions)
            else Inr questions) of
        Inl e \<Rightarrow> Inr []
      | Inr questions \<Rightarrow> Inr questions)"

subsection \<open>extract\_customer\_insights\<close>

text \<open>The key \<open>selector_used\<close> of an aspect is the field \<open>aspect_selector_used\<close>.\<close>

record aspect =
  aspect_number :: int
  aspect_text :: string
  sentiment :: string
  aria_label :: string
  aspect_selector_used :: string

record insights =
  customers_say_summary :: string
  aspects :: "aspect list"

definition summary_selectors :: "string list" where
  "summary_selectors =
     [''#cr-product-insights-cards #product-summary p:first-of-type'',
      ''[data-hook=\"cr-insights-widget-summary\"] p:first-of-type'',
      ''#product-summary .a-spacing-small:first-of-type'']"

definition aspect_selectors :: "string list" where
  "aspect_selectors =
     [''[data-hook=\"cr-insights-aspect-link\"]'',
      ''.a-section[role=\"tablist\"] a[role=\"tab\"]'',
      ''._Y3Itc_aspect-link_TtdmS'']"

text \<open>
  \<open>summary_element.text.strip()\<close> of the first match of one selector; the \<open>try\<close> of the
  summary loop wraps it.
\<close>

definition summary_of :: "page \<Rightarrow> string \<Rightarrow> exn + string" where
  "summary_of p selector =
     and_then (text_at (find_elements p) selector) (\<lambda>t. Inr (py_strip t))"

fun summary_loop :: "page \<Rightarrow> string \<Rightarrow> string list \<Rightarrow> string" where
  "summary_loop p summary [] = summary"
| "summary_loop p summary (selector # rest) =
     (case summary_of p selector of
        Inl e \<Rightarrow> summary_loop p summary rest
      | Inr t \<Rightarrow> if t \<noteq> [] then t else summary_loop p summary rest)"

text \<open>The colour probe: any exception inside is \<open>pass\<close>.\<close>

definition is_positive :: "element \<Rightarrow> bool" where
  "is_positive element =
     (case and_then (find_element (el_find_elements element) ''svg path'') (\<lambda>svg_path.
           el_attribute svg_path ''fill'') of
        Inl e \<Rightarrow> True
      | Inr None \<Rightarrow> True
      | Inr (Some fill_color) \<Rightarrow> \<not> (fill_color \<noteq> [] \<and> py_in ''#DE7921'' fill_color))"

fun collect_aspects ::
  "string \<Rightarrow> aspect list \<Rightarrow> (int \<times> element) list \<Rightarrow> exn option \<times> aspect list" where
  "collect_aspects selector found [] = (None, found)"
| "collect_aspects selector found ((i, element) # rest) =
     (case el_text element of
        Inl e \<Rightarrow> (Some e, found)
      | Inr t \<Rightarrow>
          if py_strip t \<noteq> [] \<and> 2 < length (py_strip t)
          then
            (case or_str (el_attribute element ''aria-label'') (Inr []) of
               Inl e \<Rightarrow> (Some e, found)
             | Inr label \<Rightarrow>
                 collect_aspects selector
                   (found @ [\<lparr>aspect_number = i, aspect_text = py_strip t,
                              sentiment = (if is_positive element then ''positive''
                                           else ''negative''),
                              aria_label = label, aspect_selector_used = selector\<rparr>]) rest)
          else collect_aspects selector found rest)"

fun aspects_loop :: "page \<Rightarrow> aspect list \<Rightarrow> string list \<Rightarrow> aspect list" where
  "aspects_loop p found [] = found"
| "aspects_loop p found (selector # rest) =
     (case find_elements p selector of
        Inl e \<Rightarrow> aspects_loop p found rest
      | Inr aspect_elements \<Rightarrow>
          (case collect_aspects selector found (py_enumerate 1 aspect_elements) of
             (Some e, found') \<Rightarrow> aspects_loop p found' rest
           | (None, found') \<Rightarrow>
               if found' \<noteq> [] then found' else aspects_loop p found' rest))"

definition extract_customer_insights :: "page \<Rightarrow> exn + insights" where
  "extract_customer_insights p =
     Inr \<lparr>customers_say_summary = summary_loop p [] summary_selectors,
          aspects = aspects_loop p [] aspect_selectors\<rparr>"

subsection \<open>scrape\_product\_data\<close>

text \<open>
  The \<open>results\<close> dict. \<open>customer_insights = None\<close> is the initial empty dict, and
  \<open>error\<close> is the key that only the exception handler adds.
\<close>

record results =
  product_url :: string
  timestamp :: string
  rufus_questions :: "question list"
  customer_insights :: "insights option"
  data_sources_found :: "string list"
  success :: bool
  error :: "exn option"

definition scrape_product_data :: "product_browser \<Rightarrow> string \<Rightarrow> exn + results" where
  "scrape_product_data b url =
     (let results = \<lparr>product_url = url, timestamp = clock b, rufus_questions = [],
                      customer_insights = None, data_sources_found = [],
                      success = False, error = None\<rparr>
      in case start_driver_rufus b of
           Inl e \<Rightarrow> Inr (results\<lparr>error := Some e\<rparr>)
         | Inr False \<Rightarrow> Inr results
         | Inr True \<Rightarrow>
        (case navigate_to_product b url of
           Inl e \<Rightarrow> Inr (results\<lparr>error := Some e\<rparr>)
         | Inr False \<Rightarrow> Inr results
         | Inr True \<Rightarrow>
        (case extract_rufus_questions (product_page b) of
           Inl e \<Rightarrow> Inr (results\<lparr>error := Some e\<rparr>)
         | Inr questions \<Rightarrow>
             let results =
               (if questions \<noteq> []
                then results\<lparr>rufus_questions := questions,
                             data_sources_found :=
                               data_sources_found results @ [''rufus_questions'']\<rparr>
                else results)
             in
        (case extract_customer_insights (product_page b) of
           Inl e \<Rightarrow> Inr (results\<lparr>error := Some e\<rparr>)
         | Inr found \<Rightarrow>
             let results =
               (if customers_say_summary found \<noteq> [] \<or> aspects found \<noteq> []
                then results\<lparr>customer_insights := Some found,
                             data_sources_found :=
                               data_sources_found results @ [''customer_insights'']\<rparr>
                else results)
             in Inr (if data_sources_found results \<noteq> []
                     then results\<lparr>success := True\<rparr>
                     else results)))))"

section \<open>Notions used to state the properties\<close>

text \<open>
  The records one page contributes, whether a page shows its review containers, and
  whether its next control takes the run to another page.
\<close>

definition page_records :: "page \<Rightarrow> review list" where
  "page_records p =
     (case find_elements p ''[data-hook=\"review\"]'' of
        Inl e \<Rightarrow> []
      | Inr review_elements \<Rightarrow> harvest [] review_elements)"

definition loads :: "page \<Rightarrow> bool" where
  "loads p =
     (wait_until_present p ''[data-hook=\"review\"]'' = None
      \<and> (case find_elements p ''[data-hook=\"review\"]'' of Inl e \<Rightarrow> False | Inr _ \<Rightarrow> True))"

definition advances :: "page \<Rightarrow> bool" where
  "advances p = (fst (go_to_next_page p) = Inr True)"

definition is_harvest :: "event \<Rightarrow> bool" where
  "is_harvest ev = (case ev of Find_reviews _ \<Rightarrow> True | _ \<Rightarrow> False)"

text \<open>The seven per-field computations of \<open>extract_review_data\<close>, in source order.\<close>

definition field_results :: "element \<Rightarrow> (exn + string) list" where
  "field_results el =
     [text_field el ''[data-hook=\"review-title\"]'' ''N/A'',
      rating_field el,
      text_field el ''[data-hook=\"review-body\"]'' ''N/A'',
      text_field el ''[data-hook=\"genome-widget\"] a'' ''N/A'',
      text_field el ''[data-hook=\"review-date\"]'' ''N/A'',
      verified_field el,
      text_field el ''[data-hook=\"helpful-vote-statement\"]'' ''0'']"

definition review_keys :: "string list" where
  "review_keys =
     [''title'', ''rating'', ''text'', ''author'', ''date'', ''verified_purchase'',
      ''helpful_votes'']"

text \<open>
  What one pill selector contributes, read off the page: the stripped texts of its
  elements up to the first one whose text read raises (\<open>texts_read\<close>), of these the
  non-empty ones containing a question mark (\<open>is_question\<close>), and nothing at all when
  the carousel wait or the lookup raises.
\<close>

definition is_question :: "string \<Rightarrow> bool" where
  "is_question t = (t \<noteq> [] \<and> py_in ''?'' t)"

definition texts_read :: "element list \<Rightarrow> string list" where
  "texts_read els =
     map (\<lambda>el. projr (pill_text el)) (takeWhile (\<lambda>el. \<not> isl (pill_text el)) els)"

definition attempt_texts :: "page \<Rightarrow> string \<Rightarrow> string list" where
  "attempt_texts p sel =
     (case wait_until_present p ''.dpx-rex-nile-inline-pill-carousel'' of
        Some e \<Rightarrow> []
      | None \<Rightarrow>
          (case find_elements p sel of
             Inl e \<Rightarrow> []
           | Inr els \<Rightarrow> filter is_question (texts_read els)))"

section \<open>Mock pages\<close>

definition plain :: "string \<Rightarrow> element" where
  "plain t = Element (Inr t) (\<lambda>_. Inr None) (Inr True) (Inr True) None (\<lambda>_. Inr [])"

definition with_class :: "string \<Rightarrow> element" where
  "with_class c =
     Element (Inr []) (\<lambda>a. if a = ''class'' then Inr (Some c) else Inr None)
       (Inr True) (Inr True) None (\<lambda>_. Inr [])"

text \<open>A review container with a title and, when given, a star icon of that class.\<close>

definition mock_review :: "string \<Rightarrow> string option \<Rightarrow> element" where
  "mock_review title star =
     Element (Inr title) (\<lambda>_. Inr None) (Inr True) (Inr True) None
       (\<lambda>sel. if sel = ''[data-hook=\"review-title\"]'' then Inr [plain title]
              else if sel = ''[data-hook=\"review-star-rating\"]''
              then (case star of None \<Rightarrow> Inr [] | Some c \<Rightarrow> Inr [with_class c])
              else Inr [])"

text \<open>A review container whose star element has the given class attribute, or none.\<close>

definition star_only :: "string option \<Rightarrow> element" where
  "star_only c =
     Element (Inr []) (\<lambda>_. Inr None) (Inr True) (Inr True) None
       (\<lambda>sel. if sel = ''[data-hook=\"review-star-rating\"]''
              then Inr [Element (Inr []) (\<lambda>a. if a = ''class'' then Inr c else Inr None)
                          (Inr True) (Inr True) None (\<lambda>_. Inr [])]
              else Inr [])"

text \<open>A review container whose body lookup fails with a stale-element error.\<close>

definition stale_review :: element where
  "stale_review =
     Element (Inr []) (\<lambda>_. Inr None) (Inr True) (Inr True) None
       (\<lambda>sel. if sel = ''[data-hook=\"review-body\"]'' then Inl WebDriverException
              else Inr [])"

definition review_page :: "element list \<Rightarrow> bool \<Rightarrow> page" where
  "review_page reviews has_next =
     \<lparr>current_url = Inr [],
      find_elements =
        (\<lambda>sel. if sel = ''[data-hook=\"review\"]'' then Inr reviews
               else if sel = ''li.a-last a'' \<and> has_next then Inr [plain ''Next page'']
               else Inr []),
      wait_until_present = (\<lambda>sel. if reviews = [] then Some TimeoutException else None)\<rparr>"

definition mock_browser :: "(int \<Rightarrow> page) \<Rightarrow> reviews_browser" where
  "mock_browser site =
     \<lparr>chrome_start = None, stealth_script = None, driver_set = False,
      get_outcome = None, shown = site\<rparr>"

text \<open>A browser that is not running yet and whose script injection fails at start.\<close>

definition failing_browser :: reviews_browser where
  "failing_browser =
     \<lparr>chrome_start = None, stealth_script = Some WebDriverException, driver_set = False,
      get_outcome = None, shown = (\<lambda>_. review_page [] False)\<rparr>"

text \<open>Five pages of ten five-star reviews each; the last has no next control.\<close>

definition five_pages :: "int \<Rightarrow> page" where
  "five_pages k =
     (if 1 \<le> k \<and> k \<le> 5
      then review_page (replicate 10 (mock_review ''Great'' (Some ''a-icon a-star-5'')))
             (k < 5)
      else review_page [] False)"

text \<open>Two pages of one review each; the second has no next control.\<close>

definition two_pages :: "int \<Rightarrow> page" where
  "two_pages k =
     (if k = 1 then review_page [mock_review ''Love it'' (Some ''a-star-5'')] True
      else if k = 2 then review_page [mock_review ''Good'' (Some ''a-star-4'')] False
      else review_page [] False)"

text \<open>One page with three reviews rated 5, 4 and without a star icon.\<close>

definition three_reviews :: "int \<Rightarrow> page" where
  "three_reviews k =
     review_page
       [mock_review ''Love it'' (Some ''a-icon a-icon-star a-star-5 review-rating''),
        mock_review ''Good'' (Some ''a-icon a-icon-star a-star-4 review-rating''),
        mock_review ''No stars'' None]
       False"

text \<open>A button whose \<open>textContent\<close> and \<open>.text\<close> are the given label.\<close>

definition labelled :: "string \<Rightarrow> element" where
  "labelled t =
     Element (Inr t) (\<lambda>a. if a = ''textContent'' then Inr (Some t) else Inr None)
       (Inr True) (Inr True) None (\<lambda>_. Inr [])"

text \<open>A loaded product page on which each selector matches the elements given for it.\<close>

definition product_mock :: "(string \<Rightarrow> element list) \<Rightarrow> page" where
  "product_mock matches =
     \<lparr>current_url = Inr ''https://www.amazon.in/dp/B08N5WRWNW'',
      find_elements = (\<lambda>sel. Inr (matches sel)),
      wait_until_present = (\<lambda>_. None)\<rparr>"

text \<open>No question pill anywhere, and a populated customers-say summary.\<close>

definition summary_only :: "string \<Rightarrow> element list" where
  "summary_only sel =
     (if sel = ''#cr-product-insights-cards #product-summary p:first-of-type''
      then [plain ''Customers like the sound quality.'']
      else [])"

text \<open>The first pill selector matches a non-question button and then a question.\<close>

definition pills_with_noise :: "string \<Rightarrow> element list" where
  "pills_with_noise sel =
     (if sel = ''.dpx-rex-nile-inline-pill-carousel-element .a-button-text''
      then [labelled ''Shop now'', labelled ''Is it durable?'']
      else [])"

text \<open>
  The first pill selector matches only a non-question button; the second matches a
  question.
\<close>

definition pills_second_selector :: "string \<Rightarrow> element list" where
  "pills_second_selector sel =
     (if sel = ''.dpx-rex-nile-inline-pill-carousel-element .a-button-text''
      then [labelled ''Shop now'']
      else if sel = ''.dpx-rex-nile-inline-pill-carousel-element button''
      then [labelled ''Is it durable?'']
      else [])"

text \<open>A browser that starts, needs no login and shows the given product page throughout.\<close>

definition mock_product_browser :: "page \<Rightarrow> product_browser" where
  "mock_product_browser p =
     \<lparr>chrome_start = None, stealth_script = None, first_get = None, landing = p,
      after_signin = p, polls = (\<lambda>_. p), after_login = p, second_get = None,
      product_page = p, clock = ''2024-01-01 00:00:00''\<rparr>"

text \<open>A page on which every driver call fails, as during a redirect.\<close>

definition unreachable_page :: page where
  "unreachable_page =
     \<lparr>current_url = Inl WebDriverException,
      find_elements = (\<lambda>_. Inl WebDriverException),
      wait_until_present = (\<lambda>_. Some TimeoutException)\<rparr>"

declare py_split.simps [simp del] py_split_ws.simps [simp del] pages_loop.simps [simp del]
  wait_loop.simps [simp del]

section \<open>Facts about the string functions\<close>

lemma split_once_at_sep: "split_once sep (sep @ rest) = Some ([], rest)"
proof (cases "sep @ rest")
  case Nil
  then show ?thesis by simp
next
  case (Cons a list)
  have "prefix sep (a # list)" unfolding Cons[symmetric] by simp
  moreover have "drop (length sep) (a # list) = rest" unfolding Cons[symmetric] by simp
  ultimately show ?thesis unfolding Cons by simp
qed

lemma split_once_first:
  "\<forall>i<length pre. \<not> prefix sep (drop i (pre @ sep @ rest)) \<Longrightarrow>
   split_once sep (pre @ sep @ rest) = Some (pre, rest)"
proof (induction pre)
  case Nil
  then show ?case using split_once_at_sep by simp
next
  case (Cons c cs)
  have "\<not> prefix sep (c # cs @ sep @ rest)" using Cons.prems[rule_format, of 0] by simp
  moreover have "\<forall>i<length cs. \<not> prefix sep (drop i (cs @ sep @ rest))"
  proof (intro allI impI)
    fix i assume "i < length cs"
    then show "\<not> prefix sep (drop i (cs @ sep @ rest))"
      using Cons.prems[rule_format, of "Suc i"] by simp
  qed
  ultimately show ?case using Cons.IH by simp
qed

lemma split_once_decomp:
  "split_once sep s = Some (a, b) \<Longrightarrow> s = a @ sep @ b"
proof (induction s arbitrary: a)
  case Nil then show ?case by (auto split: if_splits)
next
  case (Cons c cs)
  show ?case
  proof (cases "prefix sep (c # cs)")
    case True
    then have "a = []" "b = drop (length sep) (c # cs)" using Cons.prems by auto
    moreover from True obtain r where "c # cs = sep @ r" by (auto simp: prefix_def)
    ultimately show ?thesis by simp
  next
    case False
    then obtain a' where "split_once sep cs = Some (a', b)" "a = c # a'"
      using Cons.prems by auto
    then show ?thesis using Cons.IH by simp
  qed
qed

lemma py_in_drop: "prefix sub (drop i s) \<Longrightarrow> py_in sub s"
proof (induction s arbitrary: i)
  case Nil then show ?case by simp
next
  case (Cons c cs)
  then show ?case by (cases i) auto
qed

lemma no_early_occurrence:
  assumes "\<not> py_in sep pre" "pre = [] \<or> is_space (last pre)" "\<forall>c\<in>set sep. \<not> is_space c"
  shows "\<forall>i<length pre. \<not> prefix sep (drop i (pre @ sep @ rest))"
proof (intro allI impI notI)
  fix i assume i: "i < length pre" and p: "prefix sep (drop i (pre @ sep @ rest))"
  define u where "u = drop i pre"
  have u: "u \<noteq> []" "last u = last pre" using i by (simp_all add: u_def)
  have "prefix sep (u @ sep @ rest)" using p i by (simp add: u_def)
  then consider "prefix sep u" | us where "sep = u @ us"
    by (auto simp: prefix_append)
  then show False
  proof cases
    case 1
    then show False using assms(1) py_in_drop[of sep i pre] by (simp add: u_def)
  next
    case 2
    then have "last pre \<in> set sep" using u by (metis last_in_set in_set_conv_decomp Un_iff set_append)
    moreover have "is_space (last pre)" using assms(2) i by auto
    ultimately show False using assms(3) by blast
  qed
qed

lemma py_split_cut:
  assumes "sep \<noteq> []" "split_once sep s = Some (a, b)"
  shows "py_split sep s = a # py_split sep b"
  using assms by (subst py_split.simps) simp

lemma py_split_hd:
  assumes "sep \<noteq> []"
  shows "\<exists>x xs. py_split sep s = x # xs \<and> prefix x s"
proof (cases "split_once sep s")
  case None
  then show ?thesis using assms by (subst py_split.simps) simp
next
  case (Some ab)
  obtain a b where ab: "ab = (a, b)" by (cases ab)
  have "s = a @ sep @ b" using Some ab split_once_decomp by blast
  then show ?thesis using py_split_cut[OF assms, of s a b] Some ab by auto
qed

lemma py_split_ws_first:
  assumes "\<not> is_space d" "x = [] \<or> is_space (hd x)"
  shows "\<exists>ts. py_split_ws (d # x) = [d] # ts"
proof -
  have "takeWhile (\<lambda>c. \<not> is_space c) x = []" using assms(2) by (cases x) auto
  then show ?thesis using assms(1) by (subst py_split_ws.simps) (simp add: Let_def)
qed

lemma py_split_hd_Cons:
  assumes "sep \<noteq> []" "\<not> prefix sep (c # cs)"
  shows "\<exists>x xs. py_split sep (c # cs) = (c # x) # xs \<and> prefix x cs"
proof (cases "split_once sep cs")
  case None
  then show ?thesis using assms by (subst py_split.simps) simp
next
  case (Some ab)
  obtain a b where ab: "ab = (a, b)" by (cases ab)
  have "cs = a @ sep @ b" using Some ab split_once_decomp by blast
  moreover have "split_once sep (c # cs) = Some (c # a, b)" using Some ab assms(2) by simp
  ultimately show ?thesis using py_split_cut[OF assms(1), of "c # cs" "c # a" b] by auto
qed

lemma parse_rating_token:
  assumes first: "\<not> py_in ''a-star-'' pre" and left: "pre = [] \<or> is_space (last pre)"
    and right: "post = [] \<or> is_space (hd post)"
    and digit: "d \<in> set ''0123456789''"
  shows "parse_rating (Some (pre @ ''a-star-'' @ d # post)) = Inr [d]"
proof -
  let ?sep = "''a-star-''"
  have nosp: "\<forall>c\<in>set ?sep. \<not> is_space c" by (simp add: is_space_def)
  have dns: "\<not> is_space d" using digit by (auto simp: is_space_def)
  have cut: "split_once ?sep (pre @ ?sep @ d # post) = Some (pre, d # post)"
    by (rule split_once_first) (rule no_early_occurrence[OF first left nosp])
  have isin: "py_in ?sep (pre @ ?sep @ d # post)"
    using py_in_drop[of ?sep "length pre" "pre @ ?sep @ d # post"] by simp
  have "\<not> prefix ?sep (d # post)" using digit by auto
  then obtain x' xs where x: "py_split ?sep (d # post) = (d # x') # xs" and x': "prefix x' post"
    using py_split_hd_Cons[of ?sep d post] by auto
  have "x' = [] \<or> is_space (hd x')"
    using x' right by (cases x'; cases post) auto
  then obtain ts where ts: "py_split_ws (d # x') = [d] # ts"
    using py_split_ws_first[OF dns] by blast
  have "py_split ?sep (pre @ ?sep @ d # post) = pre # (d # x') # xs"
    using py_split_cut[OF _ cut] x by simp
  then show ?thesis
    using isin ts by (simp add: parse_rating_def py_index_def and_then_def del: py_in.simps)
qed

section \<open>Facts about one review and one page\<close>

lemma harvest_acc: "harvest acc els = acc @ harvest [] els"
proof (induction els arbitrary: acc)
  case Nil
  show ?case by simp
next
  case (Cons el els)
  show ?case
  proof (cases "extract_review_data el")
    case (Inl e)
    then show ?thesis using Cons.IH[of acc] by simp
  next
    case (Inr r)
    show ?thesis
    proof (cases r)
      case None
      then show ?thesis using Inr Cons.IH[of acc] by simp
    next
      case (Some rd)
      then show ?thesis
        using Inr Cons.IH[of acc] Cons.IH[of "acc @ [rd]"] Cons.IH[of "[rd]"] by simp
    qed
  qed
qed

lemma harvest_append: "harvest acc (xs @ ys) = harvest (harvest acc xs) ys"
  by (induction xs arbitrary: acc) (auto split: sum.splits option.splits)

lemma harvest_concat: "harvest [] (xs @ ys) = harvest [] xs @ harvest [] ys"
  using harvest_append[of "[]" xs ys] harvest_acc[of "harvest [] xs" ys] by simp

lemma harvest_skip:
  "extract_review_data el = Inr None \<Longrightarrow> harvest acc (el # rest) = harvest acc rest"
  by simp

lemma extract_review_data_total: "\<exists>r. extract_review_data el = Inr r"
  by (simp add: extract_review_data_def split: sum.splits)

lemma extract_review_data_None:
  "extract_review_data el = Inr None \<longleftrightarrow> (\<exists>e. review_fields el = Inl e)"
  by (auto simp: extract_review_data_def split: sum.splits)

lemma and_then_Inr:
  "and_then m f = Inr r \<longleftrightarrow> (\<exists>v. m = Inr v \<and> f v = Inr r)"
  by (cases m) (simp_all add: and_then_def)

lemma and_then_Inl:
  "and_then m f = Inl e \<longleftrightarrow> m = Inl e \<or> (\<exists>v. m = Inr v \<and> f v = Inl e)"
  by (cases m) (simp_all add: and_then_def)

lemma review_fields_Inr:
  "review_fields el = Inr rd \<longleftrightarrow>
     (\<exists>title rating body author date verified helpful.
        text_field el ''[data-hook=\"review-title\"]'' ''N/A'' = Inr title
      \<and> rating_field el = Inr rating
      \<and> text_field el ''[data-hook=\"review-body\"]'' ''N/A'' = Inr body
      \<and> text_field el ''[data-hook=\"genome-widget\"] a'' ''N/A'' = Inr author
      \<and> text_field el ''[data-hook=\"review-date\"]'' ''N/A'' = Inr date
      \<and> verified_field el = Inr verified
      \<and> text_field el ''[data-hook=\"helpful-vote-statement\"]'' ''0'' = Inr helpful
      \<and> rd = [(''title'', title), (''rating'', rating), (''text'', body),
               (''author'', author), (''date'', date), (''verified_purchase'', verified),
               (''helpful_votes'', helpful)])"
  unfolding review_fields_def and_then_Inr by auto

lemma review_fields_keys: "review_fields el = Inr rd \<Longrightarrow> map fst rd = review_keys"
  unfolding review_fields_Inr review_keys_def by auto


lemma review_fields_raises:
  "(\<exists>e. review_fields el = Inl e) \<longleftrightarrow> (\<exists>e. Inl e \<in> set (field_results el))"
proof -
  have "(\<exists>e. review_fields el = Inl e) \<longleftrightarrow> \<not> (\<exists>rd. review_fields el = Inr rd)"
    by (cases "review_fields el") auto
  also have "\<dots> \<longleftrightarrow> \<not> (\<forall>r \<in> set (field_results el). \<exists>v. r = Inr v)"
    unfolding review_fields_Inr field_results_def by auto
  also have "\<dots> \<longleftrightarrow> (\<exists>e. Inl e \<in> set (field_results el))"
    by (metis sum.exhaust sum.distinct(1))
  finally show ?thesis .
qed

lemma except_no_such_cases:
  "except_no_such m d =
     (case m of Inl e \<Rightarrow> if e = NoSuchElementException then Inr d else Inl e | Inr v \<Rightarrow> Inr v)"
  by (cases "(m, d)" rule: except_no_such.cases) simp_all

lemma parse_rating_raises: "parse_rating c = Inl e \<Longrightarrow> e = TypeError \<or> e = IndexError"
  by (auto simp: parse_rating_def py_index_def and_then_def split: option.splits if_splits)

section \<open>Properties\<close>

text \<open>
  C10. In \<open>extract_review_data\<close> the per-field handler substitutes the sentinel
  (\<open>"N/A"\<close>, \<open>"No"\<close>, \<open>"0"\<close>) when the field's lookup raises
  \<open>NoSuchElementException\<close> and for no other exception; a text lookup that succeeds
  gives the stripped text, and any other exception (also the \<open>TypeError\<close> or
  \<open>IndexError\<close> of the rating parse) escapes the handler. As soon as one of the seven
  fields raises, the record evaluates to \<open>None\<close> and the harvesting loop appends nothing
  for it. A record that is returned has exactly
  the keys title, rating, text, author, date, verified\_purchase, helpful\_votes, in that
  order, each with a string value, no field of it raised, and it is appended.
  \<open>extract_review_data\<close> itself never raises.
\<close>

theorem sentinel_only_for_missing_element:
  "(text_at (el_find_elements el) sel = Inl NoSuchElementException
      \<longrightarrow> text_field el sel d = Inr d)
   \<and> (\<forall>e. e \<noteq> NoSuchElementException \<and> text_at (el_find_elements el) sel = Inl e
      \<longrightarrow> text_field el sel d = Inl e)
   \<and> (\<forall>t. text_at (el_find_elements el) sel = Inr t \<longrightarrow> text_field el sel d = Inr (py_strip t))
   \<and> (rating_class el = Inl NoSuchElementException \<longrightarrow> rating_field el = Inr ''N/A'')
   \<and> (\<forall>e. e \<noteq> NoSuchElementException \<and> rating_class el = Inl e \<longrightarrow> rating_field el = Inl e)
   \<and> (\<forall>c e. rating_class el = Inr c \<and> parse_rating c = Inl e \<longrightarrow> rating_field el = Inl e)
   \<and> (find_element (el_find_elements el) ''[data-hook=\"avp-badge\"]'' = Inl NoSuchElementException
      \<longrightarrow> verified_field el = Inr ''No'')
   \<and> (\<forall>e. e \<noteq> NoSuchElementException
          \<and> find_element (el_find_elements el) ''[data-hook=\"avp-badge\"]'' = Inl e
      \<longrightarrow> verified_field el = Inl e)
   \<and> ((\<exists>e. Inl e \<in> set (field_results el)) \<longrightarrow>
        extract_review_data el = Inr None \<and> harvest acc (el # rest) = harvest acc rest)
   \<and> (\<forall>rd. extract_review_data el = Inr (Some rd) \<longrightarrow>
        map fst rd = review_keys \<and> (\<forall>r \<in> set (field_results el). \<exists>v. r = Inr v)
        \<and> harvest acc (el # rest) = harvest (acc @ [rd]) rest)
   \<and> (\<exists>r. extract_review_data el = Inr r)"
proof (intro conjI allI impI ballI)
  show "text_field el sel d = Inr d"
    if "text_at (el_find_elements el) sel = Inl NoSuchElementException"
    using that by (simp add: text_field_def and_then_def)
  show "text_field el sel d = Inl e"
    if "e \<noteq> NoSuchElementException \<and> text_at (el_find_elements el) sel = Inl e" for e
    using that by (simp add: text_field_def and_then_def except_no_such_cases)
  show "text_field el sel d = Inr (py_strip t)"
    if "text_at (el_find_elements el) sel = Inr t" for t
    using that by (simp add: text_field_def and_then_def)
  show "rating_field el = Inr ''N/A''" if "rating_class el = Inl NoSuchElementException"
    using that by (simp add: rating_field_def and_then_def)
  show "rating_field el = Inl e"
    if "e \<noteq> NoSuchElementException \<and> rating_class el = Inl e" for e
    using that by (simp add: rating_field_def and_then_def except_no_such_cases)
  show "rating_field el = Inl e" if "rating_class el = Inr c \<and> parse_rating c = Inl e" for c e
    using that parse_rating_raises[of c e]
    by (auto simp: rating_field_def and_then_def except_no_such_cases)
  show "verified_field el = Inr ''No''"
    if "find_element (el_find_elements el) ''[data-hook=\"avp-badge\"]''
          = Inl NoSuchElementException"
    using that by (simp add: verified_field_def and_then_def)
  show "verified_field el = Inl e"
    if "e \<noteq> NoSuchElementException
          \<and> find_element (el_find_elements el) ''[data-hook=\"avp-badge\"]'' = Inl e" for e
    using that by (simp add: verified_field_def and_then_def except_no_such_cases)
  show none: "extract_review_data el = Inr None" if "\<exists>e. Inl e \<in> set (field_results el)"
    using that review_fields_raises[of el] extract_review_data_None[of el] by simp
  show "harvest acc (el # rest) = harvest acc rest" if "\<exists>e. Inl e \<in> set (field_results el)"
    using none[OF that] by simp
  show "map fst rd = review_keys" if "extract_review_data el = Inr (Some rd)" for rd
    using that review_fields_keys[of el rd]
    by (auto simp: extract_review_data_def split: sum.splits)
  show "\<exists>v. r = Inr v"
    if "extract_review_data el = Inr (Some rd)" "r \<in> set (field_results el)" for rd r
  proof (cases r)
    case (Inl e)
    then have "extract_review_data el = Inr None"
      using that(2) review_fields_raises[of el] extract_review_data_None[of el] by auto
    then show ?thesis using that(1) by simp
  next
    case (Inr v)
    then show ?thesis by simp
  qed
  show "harvest acc (el # rest) = harvest (acc @ [rd]) rest"
    if "extract_review_data el = Inr (Some rd)" for rd
  proof -
    have "map fst rd = review_keys" using that review_fields_keys[of el rd]
      by (auto simp: extract_review_data_def split: sum.splits)
    then have "rd \<noteq> []" by (auto simp: review_keys_def)
    then show ?thesis using that by simp
  qed
  show "\<exists>r. extract_review_data el = Inr r" by (rule extract_review_data_total)
qed

theorem sentinel_only_for_missing_element_witness:
  "text_at (el_find_elements stale_review) ''[data-hook=\"review-title\"]''
     = Inl NoSuchElementException
   \<and> text_field stale_review ''[data-hook=\"review-title\"]'' ''N/A'' = Inr ''N/A''
   \<and> Inl WebDriverException \<in> set (field_results stale_review)
   \<and> extract_review_data stale_review = Inr None
   \<and> harvest [] [stale_review] = []"
proof -
  note fact = sentinel_only_for_missing_element
                [of stale_review "''[data-hook=\"review-title\"]''" "''N/A''" "[]" "[]"]
  have missing: "text_at (el_find_elements stale_review) ''[data-hook=\"review-title\"]''
                   = Inl NoSuchElementException"
    by (simp add: stale_review_def text_at_def find_element_def and_then_def)
  have raised: "Inl WebDriverException \<in> set (field_results stale_review)"
    by (simp add: stale_review_def field_results_def text_field_def text_at_def
          find_element_def and_then_def)
  have "text_field stale_review ''[data-hook=\"review-title\"]'' ''N/A'' = Inr ''N/A''"
    using fact missing by blast
  moreover have "extract_review_data stale_review = Inr None
                 \<and> harvest [] (stale_review # []) = harvest [] []"
    using fact raised by blast
  ultimately show ?thesis using missing raised by simp
qed

lemmas review_eval = extract_review_data_def review_fields_def text_field_def rating_field_def
  rating_class_def verified_field_def parse_rating_def text_at_def find_element_def
  and_then_def py_index_def py_strip_def is_space_def py_split.simps py_split_ws.simps

lemma scenario_three:
  "scrape_reviews (mock_browser three_reviews) pid mine 1 =
     (Inr [[(''title'', ''Love it''), (''rating'', ''5''), (''text'', ''N/A''),
        (''author'', ''N/A''), (''date'', ''N/A''),
        (''verified_purchase'', ''No''), (''helpful_votes'', ''0'')],
       [(''title'', ''Good''), (''rating'', ''4''), (''text'', ''N/A''),
        (''author'', ''N/A''), (''date'', ''N/A''),
        (''verified_purchase'', ''No''), (''helpful_votes'', ''0'')],
       [(''title'', ''No stars''), (''rating'', ''N/A''),
        (''text'', ''N/A''), (''author'', ''N/A''), (''date'', ''N/A''),
        (''verified_purchase'', ''No''), (''helpful_votes'', ''0'')]],
      [Start_driver, Get (get_reviews_url pid mine), Scraping_page 1, Find_reviews 1,
       Successfully_scraped 3])"
  by (simp add: scrape_reviews_def start_driver_def mock_browser_def three_reviews_def
        review_page_def pages_loop.simps visit_page_def mock_review_def plain_def with_class_def review_eval
        Let_def)


lemma extract_from_fields:
  assumes "\<forall>x \<in> set (field_results el). \<exists>v. x = Inr v" "rating_field el = Inr r"
  shows "\<exists>rd. extract_review_data el = Inr (Some rd) \<and> map_of rd ''rating'' = Some r"
proof -
  have "\<not> (\<exists>e. review_fields el = Inl e)"
    using assms(1) review_fields_raises[of el] by auto
  then obtain rd where rd: "review_fields el = Inr rd" by (cases "review_fields el") auto
  then have "map_of rd ''rating'' = Some r"
    using assms(2) unfolding review_fields_Inr by auto
  then show ?thesis using rd by (simp add: extract_review_data_def)
qed

text \<open>
  The rating of a review when the class attribute of its star-rating element is a
  string. When that element is missing, or its class attribute does not contain
  \<open>a-star-\<close>, the rating is \<open>"N/A"\<close>. When the class attribute holds a token
  \<open>a-star-N\<close> with \<open>N\<close> a digit (the token starts the attribute or follows whitespace,
  ends it or is followed by whitespace, and no \<open>a-star-\<close> occurs before it), the rating
  is that digit. A rating that was obtained, sentinel or not, does not stop the record:
  when no field raises, the record is produced with that rating and appended. A page
  with three review containers rated 5, 4 and without a star element yields three
  records with ratings \<open>"5"\<close>, \<open>"4"\<close>, \<open>"N/A"\<close>, and \<open>scrape_reviews\<close> returns them
  without raising.
\<close>

theorem rating_from_star_class:
  "(rating_class el = Inl NoSuchElementException \<longrightarrow> rating_field el = Inr ''N/A'')
   \<and> (\<forall>c. rating_class el = Inr (Some c) \<and> \<not> py_in ''a-star-'' c
        \<longrightarrow> rating_field el = Inr ''N/A'')
   \<and> (\<forall>pre d post.
         rating_class el = Inr (Some (pre @ ''a-star-'' @ d # post))
         \<and> d \<in> set ''0123456789''
         \<and> \<not> py_in ''a-star-'' pre
         \<and> (pre = [] \<or> is_space (last pre))
         \<and> (post = [] \<or> is_space (hd post))
        \<longrightarrow> rating_field el = Inr [d])
   \<and> (\<forall>r. rating_field el = Inr r \<and> (\<forall>x \<in> set (field_results el). \<exists>v. x = Inr v)
        \<longrightarrow> (\<exists>rd. extract_review_data el = Inr (Some rd) \<and> map_of rd ''rating'' = Some r
                  \<and> harvest acc (el # rest) = harvest (acc @ [rd]) rest))
   \<and> (case scrape_reviews (mock_browser three_reviews) pid mine 1 of
         (Inr records, evs) \<Rightarrow>
           length records = 3
           \<and> map (\<lambda>rd. map_of rd ''rating'') records = [Some ''5'', Some ''4'', Some ''N/A'']
       | (Inl e, evs) \<Rightarrow> False)"
proof (intro conjI allI impI)
  show "rating_field el = Inr ''N/A''" if "rating_class el = Inl NoSuchElementException"
    using that by (simp add: rating_field_def and_then_def)
  show "rating_field el = Inr ''N/A''"
    if "rating_class el = Inr (Some c) \<and> \<not> py_in ''a-star-'' c" for c
    using that by (simp add: rating_field_def and_then_def parse_rating_def)
  show "rating_field el = Inr [d]"
    if "rating_class el = Inr (Some (pre @ ''a-star-'' @ d # post))
        \<and> d \<in> set ''0123456789''
        \<and> \<not> py_in ''a-star-'' pre
        \<and> (pre = [] \<or> is_space (last pre))
        \<and> (post = [] \<or> is_space (hd post))" for pre d post
  proof -
    have "parse_rating (Some (pre @ ''a-star-'' @ d # post)) = Inr [d]"
      using that by (intro parse_rating_token) blast+
    then show ?thesis using that by (simp add: rating_field_def and_then_def)
  qed
  show "\<exists>rd. extract_review_data el = Inr (Some rd) \<and> map_of rd ''rating'' = Some r
              \<and> harvest acc (el # rest) = harvest (acc @ [rd]) rest"
    if prem: "rating_field el = Inr r \<and> (\<forall>x \<in> set (field_results el). \<exists>v. x = Inr v)" for r
  proof -
    obtain rd where rd: "extract_review_data el = Inr (Some rd)" "map_of rd ''rating'' = Some r"
      using prem extract_from_fields[of el r] by blast
    then have "rd \<noteq> []" by auto
    then show ?thesis using rd by simp
  qed
  show "case scrape_reviews (mock_browser three_reviews) pid mine 1 of
         (Inr records, evs) \<Rightarrow>
           length records = 3
           \<and> map (\<lambda>rd. map_of rd ''rating'') records = [Some ''5'', Some ''4'', Some ''N/A'']
       | (Inl e, evs) \<Rightarrow> False"
    by (simp add: scenario_three)
qed

theorem rating_from_star_class_witness:
  "rating_class (mock_review ''Good'' (Some ''a-icon a-icon-star a-star-4 review-rating''))
     = Inr (Some (''a-icon a-icon-star '' @ ''a-star-'' @ CHR ''4'' # '' review-rating''))
   \<and> rating_field (mock_review ''Good'' (Some ''a-icon a-icon-star a-star-4 review-rating''))
     = Inr ''4''
   \<and> rating_class (mock_review ''No stars'' None) = Inl NoSuchElementException
   \<and> rating_field (mock_review ''No stars'' None) = Inr ''N/A''
   \<and> rating_class (mock_review ''Odd'' (Some ''a-icon'')) = Inr (Some ''a-icon'')
   \<and> rating_field (mock_review ''Odd'' (Some ''a-icon'')) = Inr ''N/A''
   \<and> (\<exists>rd. extract_review_data (mock_review ''No stars'' None) = Inr (Some rd)
          \<and> map_of rd ''rating'' = Some ''N/A''
          \<and> harvest [] [mock_review ''No stars'' None] = [rd])"
proof -
  let ?four = "mock_review ''Good'' (Some ''a-icon a-icon-star a-star-4 review-rating'')"
  let ?none = "mock_review ''No stars'' None"
  let ?odd = "mock_review ''Odd'' (Some ''a-icon'')"
  have c4: "rating_class ?four
              = Inr (Some (''a-icon a-icon-star '' @ ''a-star-'' @ CHR ''4'' # '' review-rating''))"
    by (simp add: mock_review_def with_class_def rating_class_def find_element_def and_then_def)
  have side: "CHR ''4'' \<in> set ''0123456789''" "\<not> py_in ''a-star-'' ''a-icon a-icon-star ''"
    "''a-icon a-icon-star '' = [] \<or> is_space (last ''a-icon a-icon-star '')"
    "'' review-rating'' = [] \<or> is_space (hd '' review-rating'')"
    by (simp_all add: is_space_def)
  have r4: "rating_field ?four = Inr ''4''"
    using rating_from_star_class[of ?four "[]" "[]" "[]" True] c4 side by blast
  have cn: "rating_class ?none = Inl NoSuchElementException"
    by (simp add: mock_review_def rating_class_def find_element_def and_then_def)
  have rn: "rating_field ?none = Inr ''N/A''"
    using rating_from_star_class[of ?none "[]" "[]" "[]" True] cn by blast
  have co: "rating_class ?odd = Inr (Some ''a-icon'')" "\<not> py_in ''a-star-'' ''a-icon''"
    by (simp_all add: mock_review_def with_class_def rating_class_def find_element_def
          and_then_def)
  have ro: "rating_field ?odd = Inr ''N/A''"
    using rating_from_star_class[of ?odd "[]" "[]" "[]" True] co by blast
  have ok: "\<forall>x \<in> set (field_results ?none). \<exists>v. x = Inr v"
    by (simp add: field_results_def mock_review_def plain_def text_field_def rating_field_def
          rating_class_def verified_field_def text_at_def find_element_def and_then_def)
  have "\<exists>rd. extract_review_data ?none = Inr (Some rd) \<and> map_of rd ''rating'' = Some ''N/A''
          \<and> harvest [] (?none # []) = harvest ([] @ [rd]) []"
    using rating_from_star_class[of ?none "[]" "[]" "[]" True] rn ok by blast
  then show ?thesis using c4 r4 cn rn co ro by simp
qed

text \<open>
  C8. The claim is that a review whose star element carries no \<open>a-star-N\<close> token gets
  the rating \<open>"N/A"\<close> and is still produced. The source guards the parse with
  \<open>'a-star-' in rating_text\<close> and has \<open>"N/A"\<close> in the other branch, but two inputs
  without such a token get past it. A class attribute \<open>"a-icon a-star-"\<close>, where nothing
  follows the prefix, passes the guard and \<open>split()[0]\<close> raises \<open>IndexError\<close>; a star
  element without a class attribute makes the guard itself raise \<open>TypeError\<close>. Neither
  is a \<open>NoSuchElementException\<close>, so the field handler lets it through, the record
  evaluates to \<open>None\<close> and the harvest drops it, although every other field of the
  container gives its value or sentinel.
\<close>

theorem absent_token_drops_record:
  "rating_class (star_only (Some ''a-icon a-star-'')) = Inr (Some ''a-icon a-star-'')
   \<and> field_results (star_only (Some ''a-icon a-star-''))
       = [Inr ''N/A'', Inl IndexError, Inr ''N/A'', Inr ''N/A'', Inr ''N/A'', Inr ''No'',
          Inr ''0'']
   \<and> extract_review_data (star_only (Some ''a-icon a-star-'')) = Inr None
   \<and> harvest [] [star_only (Some ''a-icon a-star-'')] = []
   \<and> rating_class (star_only None) = Inr None
   \<and> field_results (star_only None)
       = [Inr ''N/A'', Inl TypeError, Inr ''N/A'', Inr ''N/A'', Inr ''N/A'', Inr ''No'',
          Inr ''0'']
   \<and> extract_review_data (star_only None) = Inr None
   \<and> harvest [] [star_only None] = []"
  by (simp add: star_only_def field_results_def review_eval)

section \<open>Facts about the page loop\<close>

lemma visit_page_events:
  assumes "visit_page p N k st = (r, st')"
  shows "\<exists>new. events st' = events st @ new
     \<and> length (filter is_harvest new) \<le> 1
     \<and> (\<forall>j. Click_next j \<in> set new \<longrightarrow> j = k \<and> k < N)
     \<and> (\<forall>j. Find_reviews j \<in> set new \<longrightarrow> j = k)"
proof -
  obtain x c where g: "go_to_next_page p = (x, c)" by (cases "go_to_next_page p")
  show ?thesis
    using assms g
    by (auto simp: visit_page_def Let_def is_harvest_def
        split: option.splits exn.splits sum.splits if_splits bool.splits)
qed

lemma visit_page_not_loaded:
  assumes "\<not> loads p"
  shows "\<exists>x st'. visit_page p N k st = (Some x, st') \<and> reviews_data st' = reviews_data st"
  using assms
  by (auto simp: visit_page_def loads_def Let_def split: option.splits exn.splits sum.splits)

lemma visit_page_loaded:
  assumes "loads p"
  shows "\<exists>x st'. visit_page p N k st = (x, st')
           \<and> reviews_data st' = reviews_data st @ page_records p
           \<and> (x = None \<longleftrightarrow> (k < N \<longrightarrow> advances p))"
proof -
  obtain x c where g: "go_to_next_page p = (x, c)" by (cases "go_to_next_page p")
  obtain els where els: "find_elements p ''[data-hook=\"review\"]'' = Inr els"
    using assms by (auto simp: loads_def split: sum.splits)
  have w: "wait_until_present p ''[data-hook=\"review\"]'' = None"
    using assms by (simp add: loads_def)
  have h: "harvest (reviews_data st) els = reviews_data st @ page_records p"
    using els harvest_acc[of "reviews_data st" els] by (simp add: page_records_def)
  show ?thesis
    using g els w h
    by (auto simp: visit_page_def advances_def Let_def split: sum.splits bool.splits)
qed

lemma pages_loop_events:
  "pages_loop site N p st = (ex, st') \<Longrightarrow>
   \<exists>new. events st' = events st @ new
     \<and> int (length (filter is_harvest new)) \<le> max 0 (N + 1 - p)
     \<and> (\<forall>k. Click_next k \<in> set new \<longrightarrow> p \<le> k \<and> k < N)
     \<and> (\<forall>k. Find_reviews k \<in> set new \<longrightarrow> p \<le> k \<and> k \<le> N)"
proof (induction site N p st arbitrary: ex st' rule: pages_loop.induct)
  case (1 site max_pages page st)
  show ?case
  proof (cases "max_pages < page")
    case True
    then show ?thesis using "1.prems" by (subst (asm) pages_loop.simps) auto
  next
    case False
    obtain r st1 where v: "visit_page (site page) max_pages page st = (r, st1)"
      by (cases "visit_page (site page) max_pages page st")
    obtain new1 where n1: "events st1 = events st @ new1"
      "length (filter is_harvest new1) \<le> 1"
      "\<forall>j. Click_next j \<in> set new1 \<longrightarrow> j = page \<and> page < max_pages"
      "\<forall>j. Find_reviews j \<in> set new1 \<longrightarrow> j = page"
      using visit_page_events[OF v] by blast
    show ?thesis
    proof (cases r)
      case (Some x)
      then have "st' = st1" using "1.prems" False v by (subst (asm) pages_loop.simps) simp
      then show ?thesis using n1 False by (intro exI[of _ new1]) auto
    next
      case None
      then have rec: "pages_loop site max_pages (page + 1) st1 = (ex, st')"
        using "1.prems" False v by (subst (asm) pages_loop.simps) simp
      obtain new2 where n2: "events st' = events st1 @ new2"
        "int (length (filter is_harvest new2)) \<le> max 0 (max_pages + 1 - (page + 1))"
        "\<forall>k. Click_next k \<in> set new2 \<longrightarrow> page + 1 \<le> k \<and> k < max_pages"
        "\<forall>k. Find_reviews k \<in> set new2 \<longrightarrow> page + 1 \<le> k \<and> k \<le> max_pages"
        using "1.IH"[OF False v[symmetric] None rec] by blast
      show ?thesis
        using n1 n2 False by (intro exI[of _ "new1 @ new2"]) auto
    qed
  qed
qed


lemma pages_loop_stop:
  assumes "\<not> N < p" "visit_page (site p) N p st = (Some x, st1)"
  shows "pages_loop site N p st = (x, st1)"
  using assms by (subst pages_loop.simps) simp

lemma pages_loop_next:
  assumes "\<not> N < p" "visit_page (site p) N p st = (None, st1)"
  shows "pages_loop site N p st = pages_loop site N (p + 1) st1"
  using assms by (subst pages_loop.simps) simp

lemma pages_loop_prefix:
  assumes "p \<le> k + 1" "k < N"
    and "\<forall>j. p \<le> j \<and> j \<le> k \<longrightarrow> loads (site j)"
    and "\<forall>j. p \<le> j \<and> j < k \<longrightarrow> advances (site j)"
    and "(p \<le> k \<and> \<not> advances (site k))
         \<or> ((p \<le> k \<longrightarrow> advances (site k)) \<and> \<not> loads (site (k + 1)))"
  shows "reviews_data (snd (pages_loop site N p st))
           = reviews_data st @ concat (map (\<lambda>j. page_records (site j)) [p..k])"
  using assms
proof (induction "nat (k + 1 - p)" arbitrary: p st)
  case 0
  then have p: "p = k + 1" by simp
  then have nl: "\<not> loads (site p)" using "0.prems"(5) by auto
  obtain x st1 where v: "visit_page (site p) N p st = (Some x, st1)"
    "reviews_data st1 = reviews_data st"
    using visit_page_not_loaded[OF nl, of N p st] by blast
  have "\<not> N < p" using p "0.prems"(2) by simp
  then have "pages_loop site N p st = (x, st1)" using v(1) by (rule pages_loop_stop)
  then show ?case using v(2) p by simp
next
  case (Suc n)
  then have pk: "p \<le> k" by simp
  then have l: "loads (site p)" and pN: "p < N" "\<not> N < p"
    using Suc.prems by auto
  obtain x st1 where v: "visit_page (site p) N p st = (x, st1)"
    "reviews_data st1 = reviews_data st @ page_records (site p)"
    "x = None \<longleftrightarrow> (p < N \<longrightarrow> advances (site p))"
    using visit_page_loaded[OF l, of N p st] by blast
  have up: "[p..k] = p # [p + 1..k]" using pk by (simp add: upto_rec1)
  show ?case
  proof (cases "advances (site p)")
    case True
    then have x: "x = None" using v(3) by simp
    have "nat (k + 1 - (p + 1)) = n" using Suc.hyps(2) by simp
    moreover have "p + 1 \<le> k + 1" using pk by simp
    moreover have "\<forall>j. p + 1 \<le> j \<and> j \<le> k \<longrightarrow> loads (site j)" using Suc.prems(3) by auto
    moreover have "\<forall>j. p + 1 \<le> j \<and> j < k \<longrightarrow> advances (site j)" using Suc.prems(4) by auto
    moreover have "(p + 1 \<le> k \<and> \<not> advances (site k))
         \<or> ((p + 1 \<le> k \<longrightarrow> advances (site k)) \<and> \<not> loads (site (k + 1)))"
      using Suc.prems(5) True pk by (cases "p = k") auto
    ultimately have "reviews_data (snd (pages_loop site N (p + 1) st1))
           = reviews_data st1 @ concat (map (\<lambda>j. page_records (site j)) [p + 1..k])"
      using Suc.hyps(1)[of "p + 1" st1] Suc.prems(2) by simp
    then show ?thesis
      using pages_loop_next[OF pN(2), of site st st1] v x up by simp
  next
    case False
    then have "p = k" using Suc.prems(4) pk by (cases "p = k") auto
    moreover obtain y where "x = Some y" using v(3) False pN by (cases x) auto
    ultimately show ?thesis
      using pages_loop_stop[OF pN(2), of site st y st1] v by simp
  qed
qed

lemma scrape_reviews_records:
  assumes "driver_set b \<or> start_driver b = Inr ()" "get_outcome b = None"
  shows "\<exists>evs. fst (scrape_reviews b pid mine N)
           = Inr (reviews_data (snd (pages_loop (shown b) N 1 \<lparr>reviews_data = [], events = evs\<rparr>)))"
proof -
  let ?evs = "(if driver_set b then [] else [Start_driver]) @ [Get (get_reviews_url pid mine)]"
  obtain x st where l: "pages_loop (shown b) N 1 \<lparr>reviews_data = [], events = ?evs\<rparr> = (x, st)"
    by (cases "pages_loop (shown b) N 1 \<lparr>reviews_data = [], events = ?evs\<rparr>")
  have "fst (scrape_reviews b pid mine N) = Inr (reviews_data st)"
    using assms l by (cases x) (auto simp: scrape_reviews_def Let_def)
  then show ?thesis using l by (intro exI[of _ ?evs]) simp
qed


lemma advances_iff:
  "advances p \<longleftrightarrow>
     (\<exists>next_button. find_element (find_elements p) ''li.a-last a'' = Inr next_button
        \<and> el_enabled next_button = Inr True \<and> el_click next_button = None)"
  by (auto simp: advances_def go_to_next_page_def
      split: sum.splits exn.splits bool.splits option.splits)

lemma harvest_replicate:
  assumes "extract_review_data el = Inr (Some rd)" "rd \<noteq> []"
  shows "harvest acc (replicate n el) = acc @ replicate n rd"
  using assms by (induction n arbitrary: acc) (simp_all add: replicate_app_Cons_same)

lemma extract_great:
  "extract_review_data (mock_review ''Great'' (Some ''a-icon a-star-5''))
     = Inr (Some [(''title'', ''Great''), (''rating'', ''5''), (''text'', ''N/A''),
        (''author'', ''N/A''), (''date'', ''N/A''),
        (''verified_purchase'', ''No''), (''helpful_votes'', ''0'')])"
  by (simp add: mock_review_def plain_def with_class_def review_eval)

lemma scenario_capped:
  "scrape_reviews (mock_browser five_pages) pid mine 2 =
     (Inr (replicate 20 [(''title'', ''Great''), (''rating'', ''5''), (''text'', ''N/A''),
        (''author'', ''N/A''), (''date'', ''N/A''),
        (''verified_purchase'', ''No''), (''helpful_votes'', ''0'')]),
      [Start_driver, Get (get_reviews_url pid mine), Scraping_page 1, Find_reviews 1,
       Click_next 1, Scraping_page 2, Find_reviews 2, Successfully_scraped 20])"
proof -
  have "replicate 20 x = replicate 10 x @ replicate 10 x" for x :: review
    using replicate_add[of 10 10 x] by simp
  then show ?thesis
    by (simp add: scrape_reviews_def start_driver_def mock_browser_def five_pages_def
        review_page_def pages_loop.simps visit_page_def go_to_next_page_def find_element_def
        plain_def harvest_replicate[OF extract_great] Let_def)
qed

text \<open>
  C2. For every \<open>max_pages = N \<ge> 1\<close> and every browser, \<open>scrape_reviews\<close> performs at
  most \<open>N\<close> harvest cycles (calls of \<open>find_elements\<close> for the review containers), each
  for a page number between 1 and \<open>N\<close>, and it only clicks the next control on pages
  before page \<open>N\<close>, whether or not a next control is available there. Against five pages
  of ten records each with \<open>max_pages = 2\<close>, where page 2 still has an enabled next
  control, the run returns exactly 20 records, clicks next once (on page 1), and ends by
  running out of the page range: the log has neither "No more pages available" nor
  "No reviews found on this page".
\<close>

theorem pagination_is_capped:
  assumes "1 \<le> N"
  shows "int (length (filter is_harvest (snd (scrape_reviews b pid mine N)))) \<le> N
       \<and> (\<forall>k. Find_reviews k \<in> set (snd (scrape_reviews b pid mine N)) \<longrightarrow> 1 \<le> k \<and> k \<le> N)
       \<and> (\<forall>k. Click_next k \<in> set (snd (scrape_reviews b pid mine N)) \<longrightarrow> 1 \<le> k \<and> k < N)
       \<and> advances (five_pages 2)
       \<and> scrape_reviews (mock_browser five_pages) pid mine 2 =
           (Inr (replicate 20 [(''title'', ''Great''), (''rating'', ''5''), (''text'', ''N/A''),
              (''author'', ''N/A''), (''date'', ''N/A''),
              (''verified_purchase'', ''No''), (''helpful_votes'', ''0'')]),
            [Start_driver, Get (get_reviews_url pid mine), Scraping_page 1, Find_reviews 1,
             Click_next 1, Scraping_page 2, Find_reviews 2, Successfully_scraped 20])"
proof -
  let ?evs = "snd (scrape_reviews b pid mine N)"
  have general: "int (length (filter is_harvest ?evs)) \<le> N
       \<and> (\<forall>k. Find_reviews k \<in> set ?evs \<longrightarrow> 1 \<le> k \<and> k \<le> N)
       \<and> (\<forall>k. Click_next k \<in> set ?evs \<longrightarrow> 1 \<le> k \<and> k < N)"
  proof (cases "(if driver_set b then Inr () else start_driver b)")
    case (Inl e)
    then show ?thesis using assms by (simp add: scrape_reviews_def is_harvest_def)
  next
    case (Inr u)
    let ?pre = "(if driver_set b then [] else [Start_driver]) @ [Get (get_reviews_url pid mine)]"
    have pre: "filter is_harvest ?pre = []" "\<forall>k. Find_reviews k \<notin> set ?pre"
      "\<forall>k. Click_next k \<notin> set ?pre"
      by (auto simp: is_harvest_def)
    show ?thesis
    proof (cases "get_outcome b")
      case (Some e)
      then show ?thesis using Inr assms
        by (auto simp: scrape_reviews_def is_harvest_def Let_def)
    next
      case None
      obtain x st where l:
        "pages_loop (shown b) N 1 \<lparr>reviews_data = [], events = ?pre\<rparr> = (x, st)"
        by (cases "pages_loop (shown b) N 1 \<lparr>reviews_data = [], events = ?pre\<rparr>")
      obtain new where new: "events st = ?pre @ new"
        "int (length (filter is_harvest new)) \<le> max 0 (N + 1 - 1)"
        "\<forall>k. Click_next k \<in> set new \<longrightarrow> 1 \<le> k \<and> k < N"
        "\<forall>k. Find_reviews k \<in> set new \<longrightarrow> 1 \<le> k \<and> k \<le> N"
        using pages_loop_events[OF l] by auto
      have "\<exists>last. ?evs = events st @ [last] \<and> \<not> is_harvest last
              \<and> (\<forall>k. last \<noteq> Find_reviews k) \<and> (\<forall>k. last \<noteq> Click_next k)"
        using Inr None l by (cases x) (auto simp: scrape_reviews_def Let_def is_harvest_def)
      then obtain last where last: "?evs = ?pre @ new @ [last]" "\<not> is_harvest last"
        "\<forall>k. last \<noteq> Find_reviews k" "\<forall>k. last \<noteq> Click_next k"
        using new(1) by auto
      have "filter is_harvest ?evs = filter is_harvest new"
        unfolding last(1) using last(2) by (simp add: is_harvest_def)
      moreover have "Find_reviews k \<in> set ?evs \<longleftrightarrow> Find_reviews k \<in> set new" for k
        unfolding last(1) using pre(2) last(3) by auto
      moreover have "Click_next k \<in> set ?evs \<longleftrightarrow> Click_next k \<in> set new" for k
        unfolding last(1) using pre(3) last(4) by auto
      ultimately show ?thesis using new(2,3,4) assms by simp
    qed
  qed
  have "advances (five_pages 2)"
    by (simp add: advances_def five_pages_def review_page_def go_to_next_page_def
        find_element_def plain_def)
  then show ?thesis using general scenario_capped by blast
qed

theorem pagination_is_capped_witness:
  "(1::int) \<le> 2
   \<and> int (length (filter is_harvest (snd (scrape_reviews (mock_browser five_pages) ''B01'' True 2))))
       \<le> 2
   \<and> Click_next 2 \<notin> set (snd (scrape_reviews (mock_browser five_pages) ''B01'' True 2))
   \<and> length (projr (fst (scrape_reviews (mock_browser five_pages) ''B01'' True 2))) = 20"
proof -
  have one: "(1::int) \<le> 2" by simp
  note fact = pagination_is_capped[OF one, of "mock_browser five_pages" "''B01''" True]
  have "Click_next 2 \<notin> set (snd (scrape_reviews (mock_browser five_pages) ''B01'' True 2))"
    using fact by auto
  moreover have "length (projr (fst (scrape_reviews (mock_browser five_pages) ''B01'' True 2))) = 20"
    using fact by simp
  moreover have "int (length (filter is_harvest
                    (snd (scrape_reviews (mock_browser five_pages) ''B01'' True 2)))) \<le> 2"
    using fact by (rule conjunct1)
  ultimately show ?thesis by simp
qed

text \<open>
  C3. Once navigation succeeded, let pages 1 to \<open>k\<close> (with \<open>k\<close> below \<open>max_pages\<close>) show
  their review containers, and let each page before \<open>k\<close> lead on to the next. If the
  next control of page \<open>k\<close> is absent, disabled, or raises when looked up or clicked
  (\<open>\<not> advances\<close>), or if on page \<open>k + 1\<close> the content wait times out or raises or the
  container lookup raises (\<open>\<not> loads\<close>), then \<open>scrape_reviews\<close> returns, as a list and
  not as an exception, exactly the records of pages 1 to \<open>k\<close> in page order.
\<close>

theorem partial_progress_is_returned:
  assumes "driver_set b \<or> start_driver b = Inr ()" and "get_outcome b = None"
    and "0 \<le> k" and "k < N"
    and "\<forall>j. 1 \<le> j \<and> j \<le> k \<longrightarrow> loads (shown b j)"
    and "\<forall>j. 1 \<le> j \<and> j < k \<longrightarrow> advances (shown b j)"
    and "(1 \<le> k \<and> \<not> advances (shown b k))
         \<or> ((1 \<le> k \<longrightarrow> advances (shown b k)) \<and> \<not> loads (shown b (k + 1)))"
  shows "fst (scrape_reviews b pid mine N)
           = Inr (concat (map (\<lambda>j. page_records (shown b j)) [1..k]))"
proof -
  obtain evs where "fst (scrape_reviews b pid mine N)
      = Inr (reviews_data (snd (pages_loop (shown b) N 1 \<lparr>reviews_data = [], events = evs\<rparr>)))"
    using scrape_reviews_records[OF assms(1,2)] by blast
  moreover have "1 \<le> k + 1" using assms(3) by simp
  ultimately show ?thesis
    using pages_loop_prefix[OF _ assms(4,5,6,7), of "\<lparr>reviews_data = [], events = evs\<rparr>"]
    by simp
qed

theorem partial_progress_is_returned_witness:
  "fst (scrape_reviews (mock_browser two_pages) ''B01'' True 5)
     = Inr [[(''title'', ''Love it''), (''rating'', ''5''), (''text'', ''N/A''),
             (''author'', ''N/A''), (''date'', ''N/A''),
             (''verified_purchase'', ''No''), (''helpful_votes'', ''0'')],
            [(''title'', ''Good''), (''rating'', ''4''), (''text'', ''N/A''),
             (''author'', ''N/A''), (''date'', ''N/A''),
             (''verified_purchase'', ''No''), (''helpful_votes'', ''0'')]]"
proof -
  let ?b = "mock_browser two_pages"
  have s: "shown ?b = two_pages" by (simp add: mock_browser_def)
  have a1: "driver_set ?b \<or> start_driver ?b = Inr ()"
    by (simp add: mock_browser_def start_driver_def)
  have a2: "get_outcome ?b = None" by (simp add: mock_browser_def)
  have a3: "(0::int) \<le> 2" and a4: "(2::int) < 5" by simp_all
  have a5: "\<forall>j. 1 \<le> j \<and> j \<le> 2 \<longrightarrow> loads (shown ?b j)"
    unfolding s by (auto simp: two_pages_def loads_def review_page_def)
  have adv1: "advances (two_pages 1)"
    by (simp add: advances_def two_pages_def review_page_def go_to_next_page_def
        find_element_def plain_def)
  have a6: "\<forall>j. 1 \<le> j \<and> j < 2 \<longrightarrow> advances (shown ?b j)"
  proof (intro allI impI)
    fix j :: int assume "1 \<le> j \<and> j < 2"
    then have "j = 1" by simp
    then show "advances (shown ?b j)" using adv1 s by simp
  qed
  have a7: "(1 \<le> (2::int) \<and> \<not> advances (shown ?b 2))
         \<or> ((1 \<le> (2::int) \<longrightarrow> advances (shown ?b 2)) \<and> \<not> loads (shown ?b (2 + 1)))"
    unfolding s
    by (simp add: advances_def two_pages_def review_page_def go_to_next_page_def
        find_element_def)
  have u: "[1..2] = [1, 2::int]" by (simp add: upto.simps)
  have r1: "page_records (two_pages 1) = [[(''title'', ''Love it''), (''rating'', ''5''),
             (''text'', ''N/A''), (''author'', ''N/A''), (''date'', ''N/A''),
             (''verified_purchase'', ''No''), (''helpful_votes'', ''0'')]]"
    by (simp add: page_records_def two_pages_def review_page_def mock_review_def plain_def
        with_class_def review_eval)
  have r2: "page_records (two_pages 2) = [[(''title'', ''Good''), (''rating'', ''4''),
             (''text'', ''N/A''), (''author'', ''N/A''), (''date'', ''N/A''),
             (''verified_purchase'', ''No''), (''helpful_votes'', ''0'')]]"
    by (simp add: page_records_def two_pages_def review_page_def mock_review_def plain_def
        with_class_def review_eval)
  show ?thesis
    using partial_progress_is_returned[OF a1 a2 a3 a4 a5 a6 a7, of "''B01''" True]
    unfolding s u by (simp add: r1 r2)
qed

text \<open>
  C4. Within one page harvest every record container is extracted on its own. If the
  extraction of one container raises, that container contributes nothing and the records
  harvested from the containers before and after it are exactly those that would have
  been harvested without it; their number is unchanged.
\<close>

theorem one_bad_record_is_skipped:
  assumes "review_fields bad = Inl e"
  shows "harvest acc (pre @ bad # post) = harvest acc (pre @ post)
       \<and> harvest [] (pre @ bad # post) = harvest [] pre @ harvest [] post
       \<and> length (harvest [] (pre @ bad # post))
           = length (harvest [] pre) + length (harvest [] post)"
proof -
  have n: "extract_review_data bad = Inr None"
    using assms extract_review_data_None[of bad] by blast
  have "harvest acc (pre @ bad # post) = harvest (harvest acc pre) (bad # post)"
    by (rule harvest_append)
  also have "\<dots> = harvest (harvest acc pre) post" using n by simp
  also have "\<dots> = harvest acc (pre @ post)" by (rule harvest_append[symmetric])
  finally have 1: "harvest acc (pre @ bad # post) = harvest acc (pre @ post)" .
  have "harvest [] (pre @ bad # post) = harvest [] pre @ harvest [] (bad # post)"
    by (rule harvest_concat)
  then have 2: "harvest [] (pre @ bad # post) = harvest [] pre @ harvest [] post"
    using n by simp
  show ?thesis using 1 2 by simp
qed

theorem one_bad_record_is_skipped_witness:
  "review_fields stale_review = Inl WebDriverException
   \<and> harvest [] ([mock_review ''Love it'' (Some ''a-star-5'')] @ stale_review
                   # [mock_review ''Good'' (Some ''a-star-4'')])
     = harvest [] [mock_review ''Love it'' (Some ''a-star-5'')]
       @ harvest [] [mock_review ''Good'' (Some ''a-star-4'')]
   \<and> length (harvest [] ([mock_review ''Love it'' (Some ''a-star-5'')] @ stale_review
                   # [mock_review ''Good'' (Some ''a-star-4'')])) = 2"
proof -
  have bad: "review_fields stale_review = Inl WebDriverException"
    by (simp add: stale_review_def review_fields_def text_field_def rating_field_def
        rating_class_def text_at_def find_element_def and_then_def)
  have l: "length (harvest [] [mock_review ''Love it'' (Some ''a-star-5'')]) = 1"
    "length (harvest [] [mock_review ''Good'' (Some ''a-star-4'')]) = 1"
    by (simp_all add: mock_review_def plain_def with_class_def review_eval)
  note fact = one_bad_record_is_skipped[OF bad, of "[]"
            "[mock_review ''Love it'' (Some ''a-star-5'')]"
            "[mock_review ''Good'' (Some ''a-star-4'')]"]
  have "length (harvest [] ([mock_review ''Love it'' (Some ''a-star-5'')] @ stale_review
                   # [mock_review ''Good'' (Some ''a-star-4'')])) = 2"
    using fact[THEN conjunct2, THEN conjunct2] unfolding l by (simp del: harvest.simps)
  then show ?thesis using bad fact[THEN conjunct2, THEN conjunct1] by (intro conjI)
qed

text \<open>
  C6, as stated, fails: when the browser cannot be started, \<open>scrape_reviews\<close> does not
  return to its caller with zero records. \<open>start_driver\<close> re-raises what it catches and
  is called before the \<open>try\<close> of \<open>scrape_reviews\<close>, so the call ends with the exception
  and returns no list, not even an empty one.
\<close>

theorem session_start_failure_returns_no_list:
  "start_driver failing_browser = Inl WebDriverException
   \<and> fst (scrape_reviews failing_browser ''B01'' True 5) = Inl WebDriverException
   \<and> fst (scrape_reviews failing_browser ''B01'' True 5) \<noteq> Inr []"
  by (simp add: failing_browser_def scrape_reviews_def start_driver_def)

text \<open>
  C6, amended. If \<open>self.driver\<close> is not set and starting the browser fails (the Chrome
  constructor or the script injection raises \<open>e\<close>), \<open>scrape_reviews\<close> ends at once by
  raising \<open>e\<close> to the caller: no list of records is returned, and the only thing done
  is the start attempt, so no navigation (\<open>driver.get\<close>) takes place and no partial data
  exists.
\<close>

theorem session_start_failure_aborts:
  assumes "\<not> driver_set b"
    and "chrome_start b = Some e \<or> (chrome_start b = None \<and> stealth_script b = Some e)"
  shows "scrape_reviews b pid mine N = (Inl e, [Start_driver])"
  using assms by (auto simp: scrape_reviews_def start_driver_def)

theorem session_start_failure_aborts_witness:
  "scrape_reviews ((mock_browser five_pages)\<lparr>chrome_start := Some WebDriverException\<rparr>)
     ''B01'' True 5 = (Inl WebDriverException, [Start_driver])"
proof -
  let ?b = "(mock_browser five_pages)\<lparr>chrome_start := Some WebDriverException\<rparr>"
  have a: "\<not> driver_set ?b" by (simp add: mock_browser_def)
  have c: "chrome_start ?b = Some WebDriverException
           \<or> (chrome_start ?b = None \<and> stealth_script ?b = Some WebDriverException)"
    by simp
  show ?thesis by (rule session_start_failure_aborts[OF a c])
qed

section \<open>Facts about the login wait\<close>

lemma wait_loop_result:
  "fst (wait_loop seen m a) = Inr True \<and> snd (wait_loop seen m a) \<le> max m a"
proof (induction seen m a rule: wait_loop.induct)
  case (1 seen max_attempts attempt)
  show ?case
  proof (cases "max_attempts \<le> attempt")
    case True
    then show ?thesis by (subst (1 2) wait_loop.simps) simp
  next
    case False
    show ?thesis
    proof (cases "login_detected (seen attempt)")
      case (Inl e)
      then show ?thesis using False "1.IH"(1)[OF False Inl]
        by (subst (1 2) wait_loop.simps) auto
    next
      case (Inr d)
      then show ?thesis using False "1.IH"(2)[OF False Inr]
        by (subst (1 2) wait_loop.simps) (cases d; auto)
    qed
  qed
qed

lemma wait_loop_undetected:
  "\<forall>i. a \<le> i \<and> i < m \<longrightarrow> login_detected (seen i) \<noteq> Inr True \<Longrightarrow> a \<le> m \<Longrightarrow>
   wait_loop seen m a = (Inr True, m)"
proof (induction seen m a rule: wait_loop.induct)
  case (1 seen max_attempts attempt)
  show ?case
  proof (cases "max_attempts \<le> attempt")
    case True
    then show ?thesis using "1.prems" by (subst wait_loop.simps) simp
  next
    case False
    then have nd: "login_detected (seen attempt) \<noteq> Inr True" using "1.prems" by simp
    have rest: "\<forall>i. attempt + 1 \<le> i \<and> i < max_attempts \<longrightarrow> login_detected (seen i) \<noteq> Inr True"
      using "1.prems" by simp
    have le: "attempt + 1 \<le> max_attempts" using False by simp
    show ?thesis
    proof (cases "login_detected (seen attempt)")
      case (Inl e)
      then show ?thesis using False "1.IH"(1)[OF False Inl rest le]
        by (subst wait_loop.simps) simp
    next
      case (Inr d)
      then have "d = False" using nd by simp
      then show ?thesis using False Inr "1.IH"(2)[OF False Inr _ rest le]
        by (subst wait_loop.simps) simp
    qed
  qed
qed

lemma wait_loop_same_detections:
  "\<forall>i. a \<le> i \<and> i < m \<longrightarrow>
       (login_detected (seen i) = Inr True) = (login_detected (seen' i) = Inr True) \<Longrightarrow>
   wait_loop seen m a = wait_loop seen' m a"
proof (induction seen m a rule: wait_loop.induct)
  case (1 seen max_attempts attempt)
  show ?case
  proof (cases "max_attempts \<le> attempt")
    case True
    then show ?thesis by (subst (1 2) wait_loop.simps) simp
  next
    case False
    have same: "(login_detected (seen attempt) = Inr True)
                  = (login_detected (seen' attempt) = Inr True)"
      using "1.prems" False by simp
    have rest: "\<forall>i. attempt + 1 \<le> i \<and> i < max_attempts \<longrightarrow>
       (login_detected (seen i) = Inr True) = (login_detected (seen' i) = Inr True)"
      using "1.prems" by simp
    show ?thesis
    proof (cases "login_detected (seen attempt) = Inr True")
      case True
      then show ?thesis using same False by (subst (1 2) wait_loop.simps) simp
    next
      case nd: False
      have step: "wait_loop q max_attempts attempt = wait_loop q max_attempts (attempt + 1)"
        if "login_detected (q attempt) \<noteq> Inr True" for q
        using that False
        by (subst wait_loop.simps) (auto split: sum.splits bool.splits)
      have "wait_loop seen max_attempts (attempt + 1) = wait_loop seen' max_attempts (attempt + 1)"
      proof (cases "login_detected (seen attempt)")
        case (Inl e)
        then show ?thesis using "1.IH"(1)[OF False Inl rest] by simp
      next
        case (Inr d)
        then have "d = False" using nd by simp
        then show ?thesis using "1.IH"(2)[OF False Inr _ rest] by simp
      qed
      then show ?thesis using step[of seen] step[of seen'] nd same by simp
    qed
  qed
qed

text \<open>
  C7. \<open>wait_for_login_completion\<close> always returns \<open>True\<close> and never raises, after at
  most 10 polls. If no poll detects the login (each one says "not yet" or raises), all
  10 polls are made and the result is still \<open>True\<close>. A poll that raises is treated
  exactly as a poll that does not detect the login: two runs whose polls detect the login
  at the same attempts give the same result after the same number of polls.
\<close>

theorem login_wait_is_bounded_and_advisory:
  "fst (wait_for_login_completion seen) = Inr True
   \<and> snd (wait_for_login_completion seen) \<le> 10
   \<and> ((\<forall>i<10. login_detected (seen i) \<noteq> Inr True)
        \<longrightarrow> wait_for_login_completion seen = (Inr True, 10))
   \<and> ((\<forall>i<10. (login_detected (seen i) = Inr True) = (login_detected (seen' i) = Inr True))
        \<longrightarrow> wait_for_login_completion seen = wait_for_login_completion seen')"
proof (intro conjI impI)
  show "fst (wait_for_login_completion seen) = Inr True"
    using wait_loop_result[of seen 10 0] by (simp add: wait_for_login_completion_def)
  show "snd (wait_for_login_completion seen) \<le> 10"
    using wait_loop_result[of seen 10 0] by (simp add: wait_for_login_completion_def)
  show "wait_for_login_completion seen = (Inr True, 10)"
    if "\<forall>i<10. login_detected (seen i) \<noteq> Inr True"
    using that wait_loop_undetected[of 0 10 seen] by (simp add: wait_for_login_completion_def)
  show "wait_for_login_completion seen = wait_for_login_completion seen'"
    if "\<forall>i<10. (login_detected (seen i) = Inr True) = (login_detected (seen' i) = Inr True)"
    using that wait_loop_same_detections[of 0 10 seen seen']
    by (simp add: wait_for_login_completion_def)
qed

theorem login_wait_is_bounded_and_advisory_witness:
  "login_detected unreachable_page = Inl WebDriverException
   \<and> wait_for_login_completion (\<lambda>_. unreachable_page) = (Inr True, 10)"
proof -
  have r: "login_detected unreachable_page = Inl WebDriverException"
    by (simp add: login_detected_def unreachable_page_def and_then_def)
  then have "\<forall>i<10::nat. login_detected ((\<lambda>_. unreachable_page) i) \<noteq> Inr True" by simp
  then have "wait_for_login_completion (\<lambda>_. unreachable_page) = (Inr True, 10)"
    using login_wait_is_bounded_and_advisory[of "\<lambda>_. unreachable_page" "\<lambda>_. unreachable_page"]
    by blast
  then show ?thesis using r by simp
qed

section \<open>Facts about the insights flow\<close>

lemma extract_rufus_questions_total: "\<exists>qs. extract_rufus_questions p = Inr qs"
  by (simp add: extract_rufus_questions_def split: sum.splits)

lemma start_driver_rufus_total: "\<exists>ok. start_driver_rufus b = Inr ok"
  unfolding start_driver_rufus_def
  by (cases "and_then (raising (chrome_start b)) (\<lambda>_. raising (stealth_script b))") auto

lemma navigate_to_product_total: "\<exists>ok. navigate_to_product b url = Inr ok"
proof -
  have "\<exists>ok. (case m of Inl e \<Rightarrow> Inr False | Inr r \<Rightarrow> Inr r) = (Inr ok :: exn + bool)"
    for m :: "exn + bool"
    by (cases m) auto
  then show ?thesis unfolding navigate_to_product_def by blast
qed

lemmas product_eval = scrape_product_data_def start_driver_rufus_def navigate_to_product_def
  handle_login_if_required_def signin_selectors_def raising_def and_then_def
  extract_rufus_questions_def pill_selectors_def try_selector_def fallback_selector_def
  extract_customer_insights_def summary_selectors_def aspect_selectors_def summary_of_def
  text_at_def find_element_def py_strip_def is_space_def pill_text_def or_str_def

text \<open>
  C5. \<open>scrape_product_data\<close> never raises and never takes its exception handler. Its
  \<open>success\<close> flag is true exactly when the browser started, navigation succeeded, and
  at least one source gave data: a non-empty question list, a non-empty customers-say
  summary, or a non-empty aspect list. Equivalently, exactly when \<open>data_sources_found\<close>
  is non-empty, and exactly when the result carries questions or insights. When the
  question extraction finds nothing but the summary is populated, the result has
  \<open>success = True\<close>, \<open>data_sources_found = ["customer_insights"]\<close> and an empty
  question list.
\<close>

theorem success_iff_some_source:
  "\<exists>r started navigated questions found.
      scrape_product_data b url = Inr r
    \<and> start_driver_rufus b = Inr started
    \<and> navigate_to_product b url = Inr navigated
    \<and> extract_rufus_questions (product_page b) = Inr questions
    \<and> extract_customer_insights (product_page b) = Inr found
    \<and> error r = None
    \<and> (success r \<longleftrightarrow>
          started \<and> navigated
          \<and> (questions \<noteq> [] \<or> customers_say_summary found \<noteq> [] \<or> aspects found \<noteq> []))
    \<and> (success r \<longleftrightarrow> data_sources_found r \<noteq> [])
    \<and> (success r \<longleftrightarrow> rufus_questions r \<noteq> [] \<or> customer_insights r \<noteq> None)
    \<and> (started \<and> navigated \<and> questions = [] \<and> customers_say_summary found \<noteq> []
         \<longrightarrow> success r \<and> data_sources_found r = [''customer_insights'']
             \<and> rufus_questions r = [] \<and> customer_insights r = Some found)"
proof -
  obtain started where s: "start_driver_rufus b = Inr started"
    using start_driver_rufus_total by blast
  obtain navigated where n: "navigate_to_product b url = Inr navigated"
    using navigate_to_product_total by blast
  obtain questions where q: "extract_rufus_questions (product_page b) = Inr questions"
    using extract_rufus_questions_total by blast
  obtain found where f: "extract_customer_insights (product_page b) = Inr found"
    by (simp add: extract_customer_insights_def)
  let ?init = "\<lparr>product_url = url, timestamp = clock b, rufus_questions = [],
                 customer_insights = None, data_sources_found = [],
                 success = False, error = None\<rparr>"
  let ?with_q = "if questions \<noteq> []
                 then ?init\<lparr>rufus_questions := questions,
                             data_sources_found := [''rufus_questions'']\<rparr>
                 else ?init"
  let ?with_i = "if customers_say_summary found \<noteq> [] \<or> aspects found \<noteq> []
                 then ?with_q\<lparr>customer_insights := Some found,
                               data_sources_found :=
                                 data_sources_found ?with_q @ [''customer_insights'']\<rparr>
                 else ?with_q"
  define r where "r = (if started \<and> navigated
                    then (if data_sources_found ?with_i \<noteq> []
                          then ?with_i\<lparr>success := True\<rparr> else ?with_i)
                    else ?init)"
  have run: "scrape_product_data b url = Inr r"
    unfolding r_def using s n q f
    by (cases started; cases navigated) (simp_all add: scrape_product_data_def)
  have e: "error r = None" by (simp add: r_def)
  have s1: "success r \<longleftrightarrow>
          started \<and> navigated
          \<and> (questions \<noteq> [] \<or> customers_say_summary found \<noteq> [] \<or> aspects found \<noteq> [])"
    by (auto simp: r_def)
  have s2: "success r \<longleftrightarrow> data_sources_found r \<noteq> []" by (auto simp: r_def)
  have s3: "success r \<longleftrightarrow> rufus_questions r \<noteq> [] \<or> customer_insights r \<noteq> None"
    by (auto simp: r_def)
  have s4: "started \<and> navigated \<and> questions = [] \<and> customers_say_summary found \<noteq> []
         \<longrightarrow> success r \<and> data_sources_found r = [''customer_insights'']
             \<and> rufus_questions r = [] \<and> customer_insights r = Some found"
    by (auto simp: r_def)
  show ?thesis using run s n q f e s1 s2 s3 s4 by blast
qed

theorem success_iff_some_source_witness:
  "\<exists>r. scrape_product_data (mock_product_browser (product_mock summary_only))
          ''https://www.amazon.in/dp/B08N5WRWNW'' = Inr r
      \<and> extract_rufus_questions (product_mock summary_only) = Inr []
      \<and> success r \<and> data_sources_found r = [''customer_insights''] \<and> rufus_questions r = []"
proof -
  let ?b = "mock_product_browser (product_mock summary_only)"
  let ?url = "''https://www.amazon.in/dp/B08N5WRWNW''"
  obtain r started navigated questions found where w:
    "scrape_product_data ?b ?url = Inr r"
    "start_driver_rufus ?b = Inr started"
    "navigate_to_product ?b ?url = Inr navigated"
    "extract_rufus_questions (product_page ?b) = Inr questions"
    "extract_customer_insights (product_page ?b) = Inr found"
    "started \<and> navigated \<and> questions = [] \<and> customers_say_summary found \<noteq> []
         \<longrightarrow> success r \<and> data_sources_found r = [''customer_insights'']
             \<and> rufus_questions r = [] \<and> customer_insights r = Some found"
    using success_iff_some_source[of ?b ?url] by blast
  have pp: "product_page ?b = product_mock summary_only" by (simp add: mock_product_browser_def)
  have "start_driver_rufus ?b = Inr True"
    by (simp add: mock_product_browser_def product_eval)
  moreover have "navigate_to_product ?b ?url = Inr True"
    by (simp add: mock_product_browser_def product_mock_def summary_only_def product_eval)
  moreover have q0: "extract_rufus_questions (product_mock summary_only) = Inr []"
    by (simp add: product_mock_def summary_only_def product_eval)
  moreover have "extract_customer_insights (product_mock summary_only)
      = Inr \<lparr>customers_say_summary = ''Customers like the sound quality.'', aspects = []\<rparr>"
    by (simp add: product_mock_def summary_only_def plain_def product_eval)
  ultimately have "started \<and> navigated \<and> questions = [] \<and> customers_say_summary found \<noteq> []"
    using w(2,3,4,5) unfolding pp by auto
  then show ?thesis using w(1,6) q0 by blast
qed

section \<open>Facts about the selector loops\<close>

lemma pills_loop_none:
  "\<forall>s \<in> set sels. snd (try_selector p s []) = [] \<Longrightarrow> pills_loop p [] sels = []"
proof (induction sels)
  case Nil
  show ?case by simp
next
  case (Cons s sels)
  obtain x where "try_selector p s [] = (x, [])"
    using Cons.prems by (cases "try_selector p s []") auto
  then show ?case using Cons by (cases x) simp_all
qed

lemma pills_loop_first:
  assumes "\<forall>s \<in> set pre. snd (try_selector p s []) = []"
    and "try_selector p sel [] = (None, qs)" and "qs \<noteq> []"
  shows "pills_loop p [] (pre @ sel # post) = qs"
  using assms(1)
proof (induction pre)
  case Nil
  show ?case using assms(2,3) by simp
next
  case (Cons s pre)
  obtain x where "try_selector p s [] = (x, [])"
    using Cons.prems by (cases "try_selector p s []") auto
  then show ?case using Cons by (cases x) simp_all
qed

lemma summary_loop_none:
  "\<forall>s \<in> set sels. \<forall>t. summary_of p s = Inr t \<longrightarrow> t = [] \<Longrightarrow> summary_loop p [] sels = []"
proof (induction sels)
  case Nil
  show ?case by simp
next
  case (Cons s sels)
  then show ?case by (cases "summary_of p s") auto
qed

lemma summary_loop_first:
  assumes "\<forall>s \<in> set pre. \<forall>t. summary_of p s = Inr t \<longrightarrow> t = []"
    and "summary_of p sel = Inr t" and "t \<noteq> []"
  shows "summary_loop p [] (pre @ sel # post) = t"
  using assms(1)
proof (induction pre)
  case Nil
  show ?case using assms(2,3) by simp
next
  case (Cons s pre)
  then show ?case by (cases "summary_of p s") auto
qed

lemma texts_read_Cons:
  "texts_read (el # els) =
     (case pill_text el of Inl e \<Rightarrow> [] | Inr t \<Rightarrow> t # texts_read els)"
  by (cases "pill_text el") (simp_all add: texts_read_def)

lemma texts_read_all:
  "\<forall>el \<in> set els. \<not> isl (pill_text el) \<Longrightarrow>
   texts_read els = map (\<lambda>el. projr (pill_text el)) els"
  by (simp add: texts_read_def takeWhile_eq_all_conv[THEN iffD2])

lemma collect_pills_texts:
  "map question_text (snd (collect_pills sel acc xs))
     = map question_text acc @ filter is_question (texts_read (map snd xs))
   \<and> (\<forall>q \<in> set (snd (collect_pills sel acc xs)). q \<in> set acc \<or> selector_used q = sel)
   \<and> (fst (collect_pills sel acc xs) = None
        \<longleftrightarrow> (\<forall>el \<in> set (map snd xs). \<not> isl (pill_text el)))"
proof (induction sel acc xs rule: collect_pills.induct)
  case (1 selector questions)
  show ?case by (simp add: texts_read_def)
next
  case (2 selector questions i el rest)
  show ?case
  proof (cases "pill_text el")
    case (Inl e)
    then show ?thesis by (simp add: texts_read_Cons)
  next
    case (Inr t)
    show ?thesis
    proof (cases "t \<noteq> [] \<and> py_in ''?'' t")
      case True
      then show ?thesis using Inr "2.IH"(1)[OF Inr True]
        by (auto simp: texts_read_Cons is_question_def)
    next
      case False
      then show ?thesis using Inr "2.IH"(2)[OF Inr False]
        by (auto simp: texts_read_Cons is_question_def)
    qed
  qed
qed

lemma map_snd_py_enumerate: "map snd (py_enumerate n xs) = xs"
  by (induction xs arbitrary: n) simp_all

lemma try_selector_texts:
  "map question_text (snd (try_selector p sel [])) = attempt_texts p sel
   \<and> (\<forall>q \<in> set (snd (try_selector p sel [])). selector_used q = sel)"
proof (cases "wait_until_present p ''.dpx-rex-nile-inline-pill-carousel''")
  case (Some e)
  then show ?thesis by (simp add: try_selector_def attempt_texts_def)
next
  case None
  show ?thesis
  proof (cases "find_elements p sel")
    case (Inl e)
    then show ?thesis using None by (simp add: try_selector_def attempt_texts_def)
  next
    case (Inr els)
    then show ?thesis
      using None collect_pills_texts[of sel "[]" "py_enumerate 1 els"]
      by (simp add: try_selector_def attempt_texts_def map_snd_py_enumerate)
  qed
qed

lemma try_selector_completes:
  assumes "wait_until_present p ''.dpx-rex-nile-inline-pill-carousel'' = None"
    and "find_elements p sel = Inr els" and "\<forall>el \<in> set els. \<not> isl (pill_text el)"
  shows "fst (try_selector p sel []) = None
       \<and> attempt_texts p sel = filter is_question (map (\<lambda>el. projr (pill_text el)) els)"
  using assms collect_pills_texts[of sel "[]" "py_enumerate 1 els"] texts_read_all[OF assms(3)]
  by (simp add: try_selector_def attempt_texts_def map_snd_py_enumerate)

lemma pills_loop_none_texts:
  assumes "\<forall>s \<in> set sels. attempt_texts p s = []"
  shows "pills_loop p [] sels = []"
proof -
  have "\<forall>s \<in> set sels. snd (try_selector p s []) = []"
  proof
    fix s assume "s \<in> set sels"
    then have "map question_text (snd (try_selector p s [])) = []"
      using assms try_selector_texts[of p s] by simp
    then show "snd (try_selector p s []) = []" by simp
  qed
  then show ?thesis by (rule pills_loop_none)
qed

lemma fallback_loop_numbers:
  "fallback_loop acc els = Inr qs \<Longrightarrow>
   map question_number acc = [1..int (length acc)] \<Longrightarrow>
   map question_number qs = [1..int (length qs)]"
proof (induction acc els rule: fallback_loop.induct)
  case (1 questions)
  then show ?case by simp
next
  case (2 questions el rest)
  show ?case
  proof (cases "fallback_text el")
    case (Inl e)
    then show ?thesis using "2.prems" by simp
  next
    case (Inr label)
    let ?q = "\<lparr>question_number = int (length questions) + 1, question_text = py_strip label,
               selector_used = ''fallback''\<rparr>"
    have num: "map question_number (questions @ [?q]) = [1..int (length (questions @ [?q]))]"
      using "2.prems"(2) by (simp add: upto_rec2)
    show ?thesis
      using "2.prems" "2.IH" Inr num
      by (auto split: if_splits)
  qed
qed

text \<open>
  C9. The claim is that the i-th returned question carries \<open>question_number = i\<close>, also
  when non-question elements sit among the matched ones. In the selector loop the number
  is the position of the element among all elements the selector matched
  (\<open>enumerate(elements, 1)\<close>), not the position of the question in the returned list; the
  fallback pass numbers by \<open>len(questions) + 1\<close> (\<open>fallback_loop_numbers\<close>). On a page
  whose first pill selector matches the button "Shop now" and then the question
  "Is it durable?", the only returned question carries the number 2.
\<close>

theorem question_number_is_element_position:
  "extract_rufus_questions (product_mock pills_with_noise)
     = Inr [\<lparr>question_number = 2, question_text = ''Is it durable?'',
             selector_used = ''.dpx-rex-nile-inline-pill-carousel-element .a-button-text''\<rparr>]"
  by (simp add: product_mock_def pills_with_noise_def labelled_def product_eval)

text \<open>
  C1, as stated, fails for the question pills: the first pill selector resolves to an
  element with the non-empty text "Shop now", yet the result comes from the second
  selector, because a pill text only counts when it contains a question mark.
\<close>

theorem first_nonempty_text_does_not_win:
  "find_elements (product_mock pills_second_selector)
      ''.dpx-rex-nile-inline-pill-carousel-element .a-button-text''
     = Inr [labelled ''Shop now'']
   \<and> pill_text (labelled ''Shop now'') = Inr ''Shop now''
   \<and> extract_rufus_questions (product_mock pills_second_selector)
     = Inr [\<lparr>question_number = 1, question_text = ''Is it durable?'',
             selector_used = ''.dpx-rex-nile-inline-pill-carousel-element button''\<rparr>]"
  by (simp add: product_mock_def pills_second_selector_def labelled_def product_eval)

text \<open>
  C1, amended. Both extractors try their selectors in list order, the first accepted one
  wins, and running out of selectors is never an error.

  Summary: a selector is accepted when its lookup does not raise and the stripped text
  of its first matching element is non-empty. The summary is that text for the first
  accepted selector, and the empty string when none is accepted.

  Questions: an attempt on a pill selector contributes the stripped texts that are
  non-empty and contain a question mark, among the elements it reads before any
  exception, and nothing when the carousel wait or the lookup raises. If the attempts on
  all selectors before \<open>sel\<close> contribute nothing, and on \<open>sel\<close> the carousel is
  present, the lookup succeeds, every element's text can be read, and at least one text
  is a question, then the result holds exactly the question texts of the elements of
  \<open>sel\<close>, in page order, each tagged with \<open>sel\<close>. If no pill selector contributes
  anything, the result is that of the fallback pass, or the empty list when that raises.
  Neither extractor ever raises.
\<close>

theorem first_accepted_selector_wins:
  "(\<forall>pre sel post t.
       summary_selectors = pre @ sel # post
     \<and> (\<forall>s \<in> set pre. \<forall>u. summary_of p s = Inr u \<longrightarrow> u = [])
     \<and> summary_of p sel = Inr t \<and> t \<noteq> []
     \<longrightarrow> (\<exists>i. extract_customer_insights p = Inr i \<and> customers_say_summary i = t))
   \<and> ((\<forall>s \<in> set summary_selectors. \<forall>u. summary_of p s = Inr u \<longrightarrow> u = [])
       \<longrightarrow> (\<exists>i. extract_customer_insights p = Inr i \<and> customers_say_summary i = []))
   \<and> (\<forall>pre sel post els.
       pill_selectors = pre @ sel # post
     \<and> (\<forall>s \<in> set pre. attempt_texts p s = [])
     \<and> wait_until_present p ''.dpx-rex-nile-inline-pill-carousel'' = None
     \<and> find_elements p sel = Inr els
     \<and> (\<forall>el \<in> set els. \<not> isl (pill_text el))
     \<and> (\<exists>el \<in> set els. \<exists>t. pill_text el = Inr t \<and> is_question t)
     \<longrightarrow> (\<exists>qs. extract_rufus_questions p = Inr qs
            \<and> map question_text qs
                = filter is_question (map (\<lambda>el. projr (pill_text el)) els)
            \<and> (\<forall>q \<in> set qs. selector_used q = sel)))
   \<and> ((\<forall>s \<in> set pill_selectors. attempt_texts p s = [])
       \<longrightarrow> extract_rufus_questions p =
             (case and_then (find_elements p fallback_selector) (fallback_loop []) of
                Inl e \<Rightarrow> Inr []
              | Inr qs \<Rightarrow> Inr qs))
   \<and> (\<exists>qs. extract_rufus_questions p = Inr qs)
   \<and> (\<exists>i. extract_customer_insights p = Inr i)"
proof (intro conjI allI impI)
  show "\<exists>i. extract_customer_insights p = Inr i \<and> customers_say_summary i = t"
    if "summary_selectors = pre @ sel # post
        \<and> (\<forall>s \<in> set pre. \<forall>u. summary_of p s = Inr u \<longrightarrow> u = [])
        \<and> summary_of p sel = Inr t \<and> t \<noteq> []" for pre sel post t
    using that summary_loop_first[of pre p sel t post]
    by (simp add: extract_customer_insights_def)
  show "\<exists>i. extract_customer_insights p = Inr i \<and> customers_say_summary i = []"
    if "\<forall>s \<in> set summary_selectors. \<forall>u. summary_of p s = Inr u \<longrightarrow> u = []"
    using that summary_loop_none[of summary_selectors p]
    by (simp add: extract_customer_insights_def)
  show "\<exists>qs. extract_rufus_questions p = Inr qs
            \<and> map question_text qs
                = filter is_question (map (\<lambda>el. projr (pill_text el)) els)
            \<and> (\<forall>q \<in> set qs. selector_used q = sel)"
    if prem: "pill_selectors = pre @ sel # post
     \<and> (\<forall>s \<in> set pre. attempt_texts p s = [])
     \<and> wait_until_present p ''.dpx-rex-nile-inline-pill-carousel'' = None
     \<and> find_elements p sel = Inr els
     \<and> (\<forall>el \<in> set els. \<not> isl (pill_text el))
     \<and> (\<exists>el \<in> set els. \<exists>t. pill_text el = Inr t \<and> is_question t)"
    for pre sel post els
  proof -
    let ?texts = "filter is_question (map (\<lambda>el. projr (pill_text el)) els)"
    obtain x qs where run: "try_selector p sel [] = (x, qs)"
      by (cases "try_selector p sel []")
    have finished: "x = None" and at: "attempt_texts p sel = ?texts"
      using prem run try_selector_completes[of p sel els] by auto
    have texts: "map question_text qs = ?texts" and tagged: "\<forall>q \<in> set qs. selector_used q = sel"
      using try_selector_texts[of p sel] run at by auto
    obtain el t where el: "el \<in> set els" "pill_text el = Inr t" "is_question t"
      using prem by blast
    then have "t \<in> set ?texts" by force
    then have "?texts \<noteq> []" by (metis empty_iff list.set(1))
    then have ne: "qs \<noteq> []" using texts by (metis list.simps(8))
    have before: "\<forall>s \<in> set pre. snd (try_selector p s []) = []"
    proof
      fix s assume "s \<in> set pre"
      then have "map question_text (snd (try_selector p s [])) = []"
        using prem try_selector_texts[of p s] by simp
      then show "snd (try_selector p s []) = []" by simp
    qed
    have "pills_loop p [] (pre @ sel # post) = qs"
      using before run[unfolded finished] ne by (rule pills_loop_first)
    then have "extract_rufus_questions p = Inr qs"
      using prem ne by (simp add: extract_rufus_questions_def)
    then show ?thesis using texts tagged by blast
  qed
  show "extract_rufus_questions p =
             (case and_then (find_elements p fallback_selector) (fallback_loop []) of
                Inl e \<Rightarrow> Inr []
              | Inr qs \<Rightarrow> Inr qs)"
    if "\<forall>s \<in> set pill_selectors. attempt_texts p s = []"
    using pills_loop_none_texts[OF that] by (simp add: extract_rufus_questions_def)
  show "\<exists>qs. extract_rufus_questions p = Inr qs" by (rule extract_rufus_questions_total)
  show "\<exists>i. extract_customer_insights p = Inr i" by (simp add: extract_customer_insights_def)
qed

theorem first_accepted_selector_wins_witness:
  "attempt_texts (product_mock pills_second_selector)
     ''.dpx-rex-nile-inline-pill-carousel-element .a-button-text'' = []
   \<and> find_elements (product_mock pills_second_selector)
        ''.dpx-rex-nile-inline-pill-carousel-element button''
     = Inr [labelled ''Is it durable?'']
   \<and> pill_text (labelled ''Is it durable?'') = Inr ''Is it durable?''
   \<and> (\<exists>qs. extract_rufus_questions (product_mock pills_second_selector) = Inr qs
          \<and> map question_text qs = [''Is it durable?'']
          \<and> (\<forall>q \<in> set qs.
                 selector_used q = ''.dpx-rex-nile-inline-pill-carousel-element button''))
   \<and> summary_of (product_mock summary_only)
        ''#cr-product-insights-cards #product-summary p:first-of-type''
     = Inr ''Customers like the sound quality.''
   \<and> (\<exists>i. extract_customer_insights (product_mock summary_only) = Inr i
          \<and> customers_say_summary i = ''Customers like the sound quality.'')"
proof -
  let ?p = "product_mock pills_second_selector"
  let ?first = "''.dpx-rex-nile-inline-pill-carousel-element .a-button-text''"
  let ?second = "''.dpx-rex-nile-inline-pill-carousel-element button''"
  let ?els = "[labelled ''Is it durable?'']"
  let ?summary_page = "product_mock summary_only"
  let ?summary_sel = "''#cr-product-insights-cards #product-summary p:first-of-type''"
  let ?t = "''Customers like the sound quality.''"
  have pt: "pill_text (labelled ''Is it durable?'') = Inr ''Is it durable?''"
    "pill_text (labelled ''Shop now'') = Inr ''Shop now''"
    by (simp_all add: labelled_def pill_text_def or_str_def and_then_def py_strip_def
          is_space_def)
  have split: "pill_selectors = [?first] @ ?second # drop 2 pill_selectors"
    by (simp add: pill_selectors_def)
  have none: "attempt_texts ?p ?first = []"
    by (simp add: product_mock_def pills_second_selector_def attempt_texts_def texts_read_def
        is_question_def pt)
  have w: "wait_until_present ?p ''.dpx-rex-nile-inline-pill-carousel'' = None"
    by (simp add: product_mock_def)
  have f: "find_elements ?p ?second = Inr ?els"
    by (simp add: product_mock_def pills_second_selector_def)
  have ok: "\<forall>el \<in> set ?els. \<not> isl (pill_text el)" by (simp add: pt)
  have some: "\<exists>el \<in> set ?els. \<exists>t. pill_text el = Inr t \<and> is_question t"
    by (simp add: pt is_question_def)
  have q: "\<exists>qs. extract_rufus_questions ?p = Inr qs
            \<and> map question_text qs = [''Is it durable?'']
            \<and> (\<forall>q \<in> set qs. selector_used q = ?second)"
    using first_accepted_selector_wins[of ?p, THEN conjunct2, THEN conjunct2, THEN conjunct1,
            rule_format, of "[?first]" ?second "drop 2 pill_selectors" ?els]
      split none w f ok some by (simp add: pt is_question_def)
  have ssplit: "summary_selectors = [] @ ?summary_sel # drop 1 summary_selectors"
    by (simp add: summary_selectors_def)
  have st: "summary_of ?summary_page ?summary_sel = Inr ?t"
    by (simp add: product_mock_def summary_only_def plain_def summary_of_def text_at_def
        find_element_def and_then_def py_strip_def is_space_def)
  have i: "\<exists>i. extract_customer_insights ?summary_page = Inr i \<and> customers_say_summary i = ?t"
    using first_accepted_selector_wins[of ?summary_page, THEN conjunct1, rule_format,
            of "[]" ?summary_sel "drop 1 summary_selectors" ?t]
      ssplit st by simp
  show ?thesis using none f pt(1) q st i by (intro conjI)
qed

end
